theory Spec2Isabelle
  imports Complex_Main "HOL-Library.Word" "HOL-Library.AList"
begin

unbundle bit_operations_syntax

section \<open>The shader-graph data model of SgNode.cpp\<close>

text \<open>
  The C++ objects refer to each other by raw pointer (an input knows the output that
  drives it, an output knows the inputs it feeds, both know their node), and the functions
  mutate them in place. The model is an explicit store: every field of a class is a
  function from the address of the object to the field's value.

  \<^item> The address of an \<open>SgNode\<close> is a \<open>node_id\<close>.
  \<^item> The address of an \<open>SgInput\<close> (\<open>SgOutput\<close>) is \<open>Port n k\<close>, its owning node and its
    position in that node's \<open>_inputOrder\<close> (\<open>_outputOrder\<close>): ports are only ever appended
    to these vectors, and the \<open>node\<close> field of a port is set once when it is created, so
    the two identify the object and \<open>port_node\<close> is the port's \<open>node\<close> field.
  \<^item> A null pointer is \<open>None\<close>.
  \<^item> \<open>SgInputSet\<close> is a \<open>std::set\<close> of pointers: a list without duplicates. The C++
    iterates it in the order of the addresses, which the program does not fix; the model
    keeps the elements in the order \<open>List.insert\<close> leaves them in.
\<close>

type_synonym node_id = nat

datatype port = Port (port_node: node_id) (port_index: nat)

type_synonym input_ref = port
type_synonym output_ref = port

text \<open>\<open>Value\<close>: the tagged union of literals. \<open>float\<close> literals are modelled by rationals:
  the code only compares them and truncates them to \<open>int\<close>.\<close>

datatype val = VBoolean bool | VInteger int | VFloat rat | VString string | VOther string string

text \<open>Modelled from the spec: the \<open>Classification\<close> constants are declared in SgNode.h,
  which is not among the sources; the spec lists the flags and calls the mask non-exclusive.
  A mask is modelled as the set of its flags, \<open>|\<close> as union, and
  \<open>hasClassification(c)\<close> for a single flag \<open>c\<close> as membership.\<close>

datatype cflag = TEXTURE | CLOSURE | SHADER | SURFACE | LIGHT | BSDF | BSDF_R | BSDF_T | EDF | VDF
  | CONSTANT | FILETEXTURE | CONDITIONAL | IFELSE | SWITCH | SAMPLE2D | SAMPLE3D | CONVOLUTION2D

text \<open>\<open>SgNode::ScopeInfo\<close>. The two masks are \<open>uint32_t\<close>.\<close>

datatype scope_type = UNKNOWN | GLOBAL | SINGLE | MULTIPLE

record scope_info =
  sc_type :: scope_type
  conditionalNode :: "node_id option"
  conditionBitmask :: "32 word"
  fullConditionMask :: "32 word"

text \<open>The failures of the code: the exceptions it throws, named as in the spec's
  taxonomy, and the undefined behaviour of C++ (a null pointer dereferenced, a vector
  indexed out of range, an object used after the map that owned it dropped it), which the
  model reports as errors of their own.\<close>

datatype error = ImplementationNotFound | NodeDefNotFound | InputNotFound
  | InterfaceNameMismatch | DuplicatePortName | Cycle | UnsupportedRoot
  | TypeMismatch | NullDereference | IndexOutOfRange | PortDestroyed

text \<open>The store. \<open>nodeMap\<close> (an unordered map from names to nodes) is an association
  list with at most one entry per key, in some iteration order.\<close>

record sg_state =
  in_name :: "input_ref \<Rightarrow> string"
  in_type :: "input_ref \<Rightarrow> string"
  in_value :: "input_ref \<Rightarrow> val option"
  in_connection :: "input_ref \<Rightarrow> output_ref option"
  out_name :: "output_ref \<Rightarrow> string"
  out_type :: "output_ref \<Rightarrow> string"
  out_connections :: "output_ref \<Rightarrow> input_ref list"
  nd_name :: "node_id \<Rightarrow> string"
  nd_classification :: "node_id \<Rightarrow> cflag set"
  numInputs :: "node_id \<Rightarrow> nat"
  numOutputs :: "node_id \<Rightarrow> nat"
  inputMap :: "node_id \<Rightarrow> (string \<times> nat) list"
  outputMap :: "node_id \<Rightarrow> (string \<times> nat) list"
  scopeInfo :: "node_id \<Rightarrow> scope_info"
  usedClosures :: "node_id \<Rightarrow> node_id set"
  isNodeGraph :: "node_id \<Rightarrow> bool"
  samplingInput :: "node_id \<Rightarrow> nat option"
  nd_impl :: "node_id \<Rightarrow> nat option"
  nodeMap :: "(string \<times> node_id) list"
  nodeOrder :: "node_id list"
  colorTransformMap :: "(node_id \<times> string) list"
  this_graph :: node_id
  next_node :: node_id

subsection \<open>Connection primitives\<close>

text \<open>\<open>SgInput::makeConnection(src)\<close>: two assignments, nothing else. The argument is
  dereferenced, so it is a real output, never null.\<close>

definition SgInput_makeConnection :: "input_ref \<Rightarrow> output_ref \<Rightarrow> sg_state \<Rightarrow> sg_state" where
  "SgInput_makeConnection inp src s =
     s\<lparr>in_connection := (in_connection s)(inp := Some src),
       out_connections := (out_connections s)(src := List.insert inp (out_connections s src))\<rparr>"

text \<open>\<open>SgInput::breakConnection()\<close>.\<close>

definition SgInput_breakConnection :: "input_ref \<Rightarrow> sg_state \<Rightarrow> sg_state" where
  "SgInput_breakConnection inp s =
     (case in_connection s inp of
        None \<Rightarrow> s
      | Some c \<Rightarrow>
          s\<lparr>out_connections := (out_connections s)(c := removeAll inp (out_connections s c)),
            in_connection := (in_connection s)(inp := None)\<rparr>)"

text \<open>\<open>SgOutput::makeConnection(dst)\<close>.\<close>

definition SgOutput_makeConnection :: "output_ref \<Rightarrow> input_ref \<Rightarrow> sg_state \<Rightarrow> sg_state" where
  "SgOutput_makeConnection outp dst s =
     s\<lparr>in_connection := (in_connection s)(dst := Some outp),
       out_connections := (out_connections s)(outp := List.insert dst (out_connections s outp))\<rparr>"

text \<open>\<open>SgOutput::breakConnection(dst)\<close>.\<close>

definition SgOutput_breakConnection1 :: "output_ref \<Rightarrow> input_ref \<Rightarrow> sg_state \<Rightarrow> sg_state" where
  "SgOutput_breakConnection1 outp dst s =
     s\<lparr>out_connections := (out_connections s)(outp := removeAll dst (out_connections s outp)),
       in_connection := (in_connection s)(dst := None)\<rparr>"

text \<open>\<open>SgOutput::breakConnection()\<close>: every input of the set loses its connection, then
  the set is cleared.\<close>

definition SgOutput_breakConnection :: "output_ref \<Rightarrow> sg_state \<Rightarrow> sg_state" where
  "SgOutput_breakConnection outp s =
     s\<lparr>in_connection := (\<lambda>i. if i \<in> set (out_connections s outp) then None else in_connection s i),
       out_connections := (out_connections s)(outp := [])\<rparr>"

text \<open>Invariant I1 of the spec, connection symmetry: an input names an output as its
  connection exactly when that output's set holds the input.\<close>

definition I1 :: "sg_state \<Rightarrow> bool" where
  "I1 s \<longleftrightarrow> (\<forall>i outp. in_connection s i = Some outp \<longleftrightarrow> i \<in> set (out_connections s outp))"

text \<open>The four mutators the spec names, as operations of a sequence.\<close>

datatype conn_op = InputConnect input_ref output_ref | InputDisconnect input_ref
  | OutputConnect output_ref input_ref | OutputDisconnectAll output_ref

fun apply_conn_op :: "sg_state \<Rightarrow> conn_op \<Rightarrow> sg_state" where
  "apply_conn_op s (InputConnect i outp) = SgInput_makeConnection i outp s"
| "apply_conn_op s (InputDisconnect i) = SgInput_breakConnection i s"
| "apply_conn_op s (OutputConnect outp i) = SgOutput_makeConnection outp i s"
| "apply_conn_op s (OutputDisconnectAll outp) = SgOutput_breakConnection outp s"

text \<open>A connect is \<^emph>\<open>fresh\<close> when the input it connects has no connection yet, or already
  has the very connection it is given. This is how the graph builder uses the mutators: it
  breaks an input's connection itself before it connects the input again.\<close>

fun connect_fresh :: "sg_state \<Rightarrow> conn_op \<Rightarrow> bool" where
  "connect_fresh s (InputConnect i outp) = (in_connection s i = None \<or> in_connection s i = Some outp)"
| "connect_fresh s (OutputConnect outp i) = (in_connection s i = None \<or> in_connection s i = Some outp)"
| "connect_fresh s _ = True"

fun ops_fresh :: "sg_state \<Rightarrow> conn_op list \<Rightarrow> bool" where
  "ops_fresh s [] = True"
| "ops_fresh s (x # xs) = (connect_fresh s x \<and> ops_fresh (apply_conn_op s x) xs)"

text \<open>A store in which no port is connected and no node exists.\<close>

definition empty_scope :: scope_info where
  "empty_scope = \<lparr>sc_type = UNKNOWN, conditionalNode = None, conditionBitmask = 0, fullConditionMask = 0\<rparr>"

definition empty_state :: sg_state where
  "empty_state = \<lparr>in_name = (\<lambda>_. []), in_type = (\<lambda>_. []), in_value = (\<lambda>_. None),
     in_connection = (\<lambda>_. None), out_name = (\<lambda>_. []), out_type = (\<lambda>_. []),
     out_connections = (\<lambda>_. []), nd_name = (\<lambda>_. []), nd_classification = (\<lambda>_. {}),
     numInputs = (\<lambda>_. 0), numOutputs = (\<lambda>_. 0), inputMap = (\<lambda>_. []), outputMap = (\<lambda>_. []),
     scopeInfo = (\<lambda>_. empty_scope), usedClosures = (\<lambda>_. {}), isNodeGraph = (\<lambda>_. False),
     samplingInput = (\<lambda>_. None), nd_impl = (\<lambda>_. None), nodeMap = [], nodeOrder = [], colorTransformMap = [],
     this_graph = 0, next_node = 1\<rparr>"

subsection \<open>Port lookup and literals\<close>

text \<open>\<open>SgNode::getInput(size_t index)\<close> and \<open>getOutput(size_t index)\<close> index the order
  vectors; out of range is undefined behaviour in C++ and \<open>IndexOutOfRange\<close> here.
  \<open>getInput(const string&)\<close> looks the name up in \<open>_inputMap\<close> and returns null when it
  is absent.\<close>

definition getInput_at :: "sg_state \<Rightarrow> node_id \<Rightarrow> nat \<Rightarrow> error + input_ref" where
  "getInput_at s n k = (if k < numInputs s n then Inr (Port n k) else Inl IndexOutOfRange)"

definition getOutput_at :: "sg_state \<Rightarrow> node_id \<Rightarrow> nat \<Rightarrow> error + output_ref" where
  "getOutput_at s n k = (if k < numOutputs s n then Inr (Port n k) else Inl IndexOutOfRange)"

definition getInput_named :: "sg_state \<Rightarrow> node_id \<Rightarrow> string \<Rightarrow> input_ref option" where
  "getInput_named s n name = map_option (Port n) (map_of (inputMap s n) name)"

definition getOutput_named :: "sg_state \<Rightarrow> node_id \<Rightarrow> string \<Rightarrow> output_ref option" where
  "getOutput_named s n name = map_option (Port n) (map_of (outputMap s n) name)"

definition hasClassification :: "sg_state \<Rightarrow> node_id \<Rightarrow> cflag \<Rightarrow> bool" where
  "hasClassification s n c \<longleftrightarrow> c \<in> nd_classification s n"

text \<open>\<open>Value::asA<T>()\<close> raises when the dynamic type of the value is not \<open>T\<close>.\<close>

definition asA_float :: "val \<Rightarrow> error + rat" where
  "asA_float v = (case v of VFloat q \<Rightarrow> Inr q | _ \<Rightarrow> Inl TypeMismatch)"

definition asA_bool :: "val \<Rightarrow> error + bool" where
  "asA_bool v = (case v of VBoolean b \<Rightarrow> Inr b | _ \<Rightarrow> Inl TypeMismatch)"

definition asA_int :: "val \<Rightarrow> error + int" where
  "asA_int v = (case v of VInteger i \<Rightarrow> Inr i | _ \<Rightarrow> Inl TypeMismatch)"

text \<open>The conversion of a \<open>float\<close> to \<open>int\<close> truncates towards zero.\<close>

definition int_of_float :: "rat \<Rightarrow> int" where
  "int_of_float q = (if 0 \<le> q then \<lfloor>q\<rfloor> else \<lceil>q\<rceil>)"

text \<open>Modelled from the spec: the \<open>TypeDesc\<close> registry (TypeDesc.h) is not among the
  sources. A type descriptor is interned by name, so it is modelled by its name, and the
  constants of namespace \<open>Type\<close> by the names the spec gives them.\<close>

definition Type_BOOLEAN :: string where "Type_BOOLEAN = ''boolean''"
definition Type_FLOAT :: string where "Type_FLOAT = ''float''"
definition Type_SURFACESHADER :: string where "Type_SURFACESHADER = ''surfaceshader''"
definition Type_LIGHTSHADER :: string where "Type_LIGHTSHADER = ''lightshader''"
definition Type_BSDF :: string where "Type_BSDF = ''BSDF''"
definition Type_EDF :: string where "Type_EDF = ''EDF''"
definition Type_VDF :: string where "Type_VDF = ''VDF''"

subsection \<open>The optimizer: bypass and the pass over the nodes\<close>

text \<open>\<open>SgNodeGraph::bypass(node, inputIndex, outputIndex)\<close>. Both loops run over a copy
  of the output's connection set taken before the first change.\<close>

definition bypass_reroute :: "output_ref \<Rightarrow> output_ref \<Rightarrow> sg_state \<Rightarrow> input_ref \<Rightarrow> sg_state" where
  "bypass_reroute output upstream s downstream =
     SgInput_makeConnection downstream upstream (SgOutput_breakConnection1 output downstream s)"

definition bypass_push_value :: "output_ref \<Rightarrow> input_ref \<Rightarrow> sg_state \<Rightarrow> input_ref \<Rightarrow> sg_state" where
  "bypass_push_value output input s downstream =
     (let s1 = SgOutput_breakConnection1 output downstream s
      in s1\<lparr>in_value := (in_value s1)(downstream := in_value s1 input)\<rparr>)"

definition bypass :: "node_id \<Rightarrow> nat \<Rightarrow> nat \<Rightarrow> sg_state \<Rightarrow> error + sg_state" where
  "bypass node inputIndex outputIndex s =
     (case getInput_at s node inputIndex of
        Inl e \<Rightarrow> Inl e
      | Inr input \<Rightarrow>
         (case getOutput_at s node outputIndex of
            Inl e \<Rightarrow> Inl e
          | Inr output \<Rightarrow>
             (case in_connection s input of
                Some upstream \<Rightarrow>
                  Inr (foldl (bypass_reroute output upstream) s (out_connections s output))
              | None \<Rightarrow>
                  Inr (foldl (bypass_push_value output input) s (out_connections s output)))))"

text \<open>The test of a conditional is constant when its input is unconnected or driven by
  a node classified \<open>CONSTANT\<close>; its literal is then the input's own value or the value of
  input 0 of the driving node.\<close>

definition constant_driven :: "sg_state \<Rightarrow> input_ref \<Rightarrow> bool" where
  "constant_driven s inp =
     (case in_connection s inp of
        None \<Rightarrow> True
      | Some c \<Rightarrow> hasClassification s (port_node c) CONSTANT)"

definition literal_of :: "sg_state \<Rightarrow> input_ref \<Rightarrow> error + val option" where
  "literal_of s inp =
     (case in_connection s inp of
        None \<Rightarrow> Inr (in_value s inp)
      | Some c \<Rightarrow>
         (case getInput_at s (port_node c) 0 of
            Inl e \<Rightarrow> Inl e
          | Inr vi \<Rightarrow> Inr (in_value s vi)))"

text \<open>The branch of an if/else: \<open>intestValue <= cutoff->value->asA<float>() ? 2 : 3\<close>,
  where a null test literal counts as \<open>0.0f\<close>. \<open>cutoff\<close> and its value are dereferenced
  without a check.\<close>

definition ifelse_branch :: "sg_state \<Rightarrow> node_id \<Rightarrow> input_ref \<Rightarrow> error + nat" where
  "ifelse_branch s node intest =
     (case literal_of s intest of
        Inl e \<Rightarrow> Inl e
      | Inr value \<Rightarrow>
         (case (case value of None \<Rightarrow> Inr 0 | Some v \<Rightarrow> asA_float v) of
            Inl e \<Rightarrow> Inl e
          | Inr intestValue \<Rightarrow>
             (case getInput_named s node ''cutoff'' of
                None \<Rightarrow> Inl NullDereference
              | Some cutoff \<Rightarrow>
                 (case in_value s cutoff of
                    None \<Rightarrow> Inl NullDereference
                  | Some cv \<Rightarrow>
                     (case asA_float cv of
                        Inl e \<Rightarrow> Inl e
                      | Inr c \<Rightarrow> Inr (if intestValue \<le> c then 2 else 3))))))"

text \<open>The conversion of an \<open>int\<close> to \<open>float\<close> (IEEE 754 binary32, default rounding): a
  magnitude below \<open>2^24\<close> is kept; a larger one loses its low bits, as many as it takes
  to leave 24, and is rounded to the nearest multiple, a tie going to the even one.\<close>

function float_exponent :: "int \<Rightarrow> nat" where
  "float_exponent a = (if a < 2 ^ 24 then 0 else Suc (float_exponent (a div 2)))"
  by pat_completeness auto
termination
  by (relation "measure nat") auto

declare float_exponent.simps [simp del]

definition round_to_float :: "int \<Rightarrow> int" where
  "round_to_float a =
     (let e = float_exponent a; q = a div 2 ^ e; r = a mod 2 ^ e
      in if 2 ^ e < 2 * r \<or> (2 ^ e = 2 * r \<and> odd q) then (q + 1) * 2 ^ e else q * 2 ^ e)"

definition float_of_int :: "int \<Rightarrow> rat" where
  "float_of_int i = of_int (if 0 \<le> i then round_to_float i else - round_to_float (- i))"

text \<open>\<open>int(f)\<close> for a \<open>float\<close> \<open>f\<close>: the truncation, when it is an \<open>int\<close> (32 bits). It is
  undefined behaviour in C++ otherwise, and \<open>IndexOutOfRange\<close> here, since the result is
  used as an index.\<close>

definition float_to_int :: "rat \<Rightarrow> error + int" where
  "float_to_int q =
     (let i = int_of_float q
      in if - (2 ^ 31) \<le> i \<and> i < 2 ^ 31 then Inr i else Inl IndexOutOfRange)"

text \<open>The branch of a switch. The C++ conditional expression has type \<open>float\<close> (its
  arms are \<open>int\<close>, \<open>bool\<close>, \<open>float\<close> and \<open>int\<close>), and the result is converted to \<open>int\<close>:
  an \<open>int\<close> literal is rounded to a \<open>float\<close> on the way.\<close>

definition switch_branch :: "sg_state \<Rightarrow> input_ref \<Rightarrow> error + int" where
  "switch_branch s which =
     (case literal_of s which of
        Inl e \<Rightarrow> Inl e
      | Inr None \<Rightarrow> Inr 0
      | Inr (Some v) \<Rightarrow>
         (if in_type s which = Type_BOOLEAN then
            (case asA_bool v of Inl e \<Rightarrow> Inl e | Inr b \<Rightarrow> Inr (if b then 1 else 0))
          else if in_type s which = Type_FLOAT then
            (case asA_float v of Inl e \<Rightarrow> Inl e | Inr q \<Rightarrow> float_to_int q)
          else
            (case asA_int v of Inl e \<Rightarrow> Inl e | Inr i \<Rightarrow> float_to_int (float_of_int i))))"

text \<open>The body of the loop of \<open>SgNodeGraph::optimize\<close> for one node: the new store and
  whether the node was edited. \<open>bypass\<close> takes a \<open>size_t\<close>: a negative branch wraps to an
  index that is out of range.\<close>

definition optimize_node :: "node_id \<Rightarrow> sg_state \<Rightarrow> error + (sg_state \<times> bool)" where
  "optimize_node node s =
     (if hasClassification s node CONSTANT then
        (case getInput_at s node 0 of
           Inl e \<Rightarrow> Inl e
         | Inr valueInput \<Rightarrow>
            (if in_connection s valueInput = None then
               (case bypass node 0 0 s of Inl e \<Rightarrow> Inl e | Inr s' \<Rightarrow> Inr (s', True))
             else Inr (s, False)))
      else if hasClassification s node IFELSE then
        (case getInput_named s node ''intest'' of
           None \<Rightarrow> Inl NullDereference
         | Some intest \<Rightarrow>
            (if constant_driven s intest then
               (case ifelse_branch s node intest of
                  Inl e \<Rightarrow> Inl e
                | Inr branch \<Rightarrow>
                   (case bypass node branch 0 s of Inl e \<Rightarrow> Inl e | Inr s' \<Rightarrow> Inr (s', True)))
             else Inr (s, False)))
      else if hasClassification s node SWITCH then
        (case getInput_named s node ''which'' of
           None \<Rightarrow> Inl NullDereference
         | Some which \<Rightarrow>
            (if constant_driven s which then
               (case switch_branch s which of
                  Inl e \<Rightarrow> Inl e
                | Inr branch \<Rightarrow>
                   (if branch < 0 then Inl IndexOutOfRange
                    else (case bypass node (nat branch) 0 s of
                            Inl e \<Rightarrow> Inl e
                          | Inr s' \<Rightarrow> Inr (s', True))))
             else Inr (s, False)))
      else Inr (s, False))"

text \<open>The loop over \<open>getNodes()\<close>, counting the edits.\<close>

fun optimize_loop :: "node_id list \<Rightarrow> sg_state \<Rightarrow> nat \<Rightarrow> error + (sg_state \<times> nat)" where
  "optimize_loop [] s numEdits = Inr (s, numEdits)"
| "optimize_loop (node # nodes) s numEdits =
     (case optimize_node node s of
        Inl e \<Rightarrow> Inl e
      | Inr (s', edited) \<Rightarrow> optimize_loop nodes s' (if edited then Suc numEdits else numEdits))"

subsection \<open>The edge iterator\<close>

text \<open>\<open>SgEdgeIterator\<close>: the current edge, the stack of frames (top first) and the
  path set used to detect cycles.\<close>

record edge_iter =
  it_upstream :: "output_ref option"
  it_downstream :: "input_ref option"
  it_stack :: "(output_ref \<times> nat) list"
  it_path :: "output_ref set"

definition SgEdgeIterator :: "output_ref option \<Rightarrow> edge_iter" where
  "SgEdgeIterator output = \<lparr>it_upstream = output, it_downstream = None, it_stack = [], it_path = {}\<rparr>"

definition NULL_EDGE_ITERATOR :: edge_iter where
  "NULL_EDGE_ITERATOR = SgEdgeIterator None"

definition extendPathUpstream :: "output_ref \<Rightarrow> input_ref \<Rightarrow> edge_iter \<Rightarrow> error + edge_iter" where
  "extendPathUpstream upstream downstream it =
     (if upstream \<in> it_path it then Inl Cycle
      else Inr (it\<lparr>it_path := insert upstream (it_path it),
                   it_upstream := Some upstream, it_downstream := Some downstream\<rparr>))"

definition returnPathDownstream :: "output_ref \<Rightarrow> edge_iter \<Rightarrow> edge_iter" where
  "returnPathDownstream upstream it =
     it\<lparr>it_path := it_path it - {upstream}, it_upstream := None, it_downstream := None\<rparr>"

text \<open>An input leads upstream when it is connected and the driving node is not a node
  graph.\<close>

definition leads_upstream :: "sg_state \<Rightarrow> input_ref \<Rightarrow> output_ref option" where
  "leads_upstream s input =
     (case in_connection s input of
        None \<Rightarrow> None
      | Some output \<Rightarrow> if isNodeGraph s (port_node output) then None else Some output)"

text \<open>The inner loop of \<open>operator++\<close> over the siblings of a frame: it advances the
  frame's index until an input leads upstream, and returns the index reached and what it
  found.\<close>

function next_sibling :: "sg_state \<Rightarrow> node_id \<Rightarrow> nat \<Rightarrow> nat \<times> (output_ref \<times> input_ref) option" where
  "next_sibling s node second =
     (if second + 1 < numInputs s node then
        (case leads_upstream s (Port node (Suc second)) of
           Some output \<Rightarrow> (Suc second, Some (output, Port node (Suc second)))
         | None \<Rightarrow> next_sibling s node (Suc second))
      else (second, None))"
  by pat_completeness auto
termination
  by (relation "measure (\<lambda>(s, node, second). numInputs s node - second)") auto

declare next_sibling.simps [simp del]

text \<open>The outer \<open>while (true)\<close> loop of \<open>operator++\<close>, entered with \<open>_upstream\<close> already
  returned: it pops frames until one has a sibling that leads upstream, and becomes the
  end iterator when the stack is empty.\<close>

fun traverse_siblings :: "sg_state \<Rightarrow> (output_ref \<times> nat) list \<Rightarrow> output_ref set \<Rightarrow> error + edge_iter" where
  "traverse_siblings s [] path = Inr NULL_EDGE_ITERATOR"
| "traverse_siblings s ((first, second) # stack) path =
     (case next_sibling s (port_node first) second of
        (second', Some (output, input)) \<Rightarrow>
          extendPathUpstream output input
            \<lparr>it_upstream = None, it_downstream = None,
             it_stack = (first, second') # stack, it_path = path\<rparr>
      | (second', None) \<Rightarrow> traverse_siblings s stack (path - {first}))"

text \<open>\<open>SgEdgeIterator::operator++\<close>.\<close>

definition iter_next :: "sg_state \<Rightarrow> edge_iter \<Rightarrow> error + edge_iter" where
  "iter_next s it =
     (case it_upstream it of
        None \<Rightarrow> traverse_siblings s (it_stack it) (it_path it)
      | Some upstream \<Rightarrow>
         (if numInputs s (port_node upstream) \<noteq> 0 then
            (case leads_upstream s (Port (port_node upstream) 0) of
               Some output \<Rightarrow>
                 extendPathUpstream output (Port (port_node upstream) 0)
                   (it\<lparr>it_stack := (upstream, 0) # it_stack it\<rparr>)
             | None \<Rightarrow>
                 traverse_siblings s ((upstream, 0) # it_stack it) (it_path it - {upstream}))
          else traverse_siblings s (it_stack it) (it_path it - {upstream})))"

text \<open>Modelled from the spec: the iterator's \<open>begin()\<close>, \<open>operator*\<close> and comparison are
  declared in SgNode.h, which is not among the sources. After the spec (4.9) the iterator
  is single-pass, yields at each step the edge \<open>(upstream_output, downstream_input)\<close> it
  stands on, starting with the output it was created on, and completion yields the end
  sentinel. An iterator is at the end when it stands on no edge and its stack is empty.\<close>

definition at_end :: "edge_iter \<Rightarrow> bool" where
  "at_end it \<longleftrightarrow> it_upstream it = None \<and> it_downstream it = None \<and> it_stack it = []"

text \<open>A range-based \<open>for\<close> over the iterator, as the list of the edges it yields. The
  loop may not end on a graph with a cycle, so it runs on fuel: \<open>None\<close> is a traversal
  that has not finished within the fuel.\<close>

fun traverse :: "nat \<Rightarrow> sg_state \<Rightarrow> edge_iter \<Rightarrow> (error + (output_ref option \<times> input_ref option) list) option" where
  "traverse 0 s it = None"
| "traverse (Suc fuel) s it =
     (if at_end it then Some (Inr [])
      else (case iter_next s it of
              Inl e \<Rightarrow> Some (Inl e)
            | Inr it' \<Rightarrow>
               (case traverse fuel s it' of
                  None \<Rightarrow> None
                | Some (Inl e) \<Rightarrow> Some (Inl e)
                | Some (Inr es) \<Rightarrow> Some (Inr ((it_upstream it, it_downstream it) # es)))))"

definition traverseUpstream :: "nat \<Rightarrow> sg_state \<Rightarrow> output_ref \<Rightarrow> (error + (output_ref option \<times> input_ref option) list) option" where
  "traverseUpstream fuel s output = traverse fuel s (SgEdgeIterator (Some output))"

subsection \<open>The optimizer: removing the nodes no longer in use\<close>

text \<open>\<open>usedNodes\<close> is a \<open>std::set\<close> of node pointers, iterated in address order when it
  is assigned to \<open>_nodeOrder\<close>: a sorted list without duplicates.\<close>

definition set_insert_sorted :: "node_id \<Rightarrow> node_id list \<Rightarrow> node_id list" where
  "set_insert_sorted n ns = (if n \<in> set ns then ns else insort n ns)"

text \<open>The body of the loop over the edges: \<open>usedNodes.insert(edge.upstream->node)\<close>.\<close>

fun insert_upstream_nodes :: "(output_ref option \<times> input_ref option) list \<Rightarrow> node_id list \<Rightarrow> error + node_id list" where
  "insert_upstream_nodes [] usedNodes = Inr usedNodes"
| "insert_upstream_nodes ((None, _) # es) usedNodes = Inl NullDereference"
| "insert_upstream_nodes ((Some upstream, _) # es) usedNodes =
     insert_upstream_nodes es (set_insert_sorted (port_node upstream) usedNodes)"

text \<open>The loop over the output sockets (the inputs of the graph node).\<close>

fun find_used_nodes :: "nat \<Rightarrow> sg_state \<Rightarrow> input_ref list \<Rightarrow> node_id list \<Rightarrow> (error + node_id list) option" where
  "find_used_nodes fuel s [] usedNodes = Some (Inr usedNodes)"
| "find_used_nodes fuel s (outputSocket # sockets) usedNodes =
     (case in_connection s outputSocket of
        None \<Rightarrow> find_used_nodes fuel s sockets usedNodes
      | Some c \<Rightarrow>
         (case traverseUpstream fuel s c of
            None \<Rightarrow> None
          | Some (Inl e) \<Rightarrow> Some (Inl e)
          | Some (Inr es) \<Rightarrow>
             (case insert_upstream_nodes es usedNodes of
                Inl e \<Rightarrow> Some (Inl e)
              | Inr usedNodes' \<Rightarrow> find_used_nodes fuel s sockets usedNodes')))"

definition getOutputSockets :: "sg_state \<Rightarrow> input_ref list" where
  "getOutputSockets s = map (Port (this_graph s)) [0..<numInputs s (this_graph s)]"

definition getInputSockets :: "sg_state \<Rightarrow> output_ref list" where
  "getInputSockets s = map (Port (this_graph s)) [0..<numOutputs s (this_graph s)]"

text \<open>\<open>SgNodeGraph::disconnect(node)\<close>.\<close>

definition disconnect :: "node_id \<Rightarrow> sg_state \<Rightarrow> sg_state" where
  "disconnect node s =
     foldl (\<lambda>s' k. SgOutput_breakConnection (Port node k) s')
       (foldl (\<lambda>s' k. SgInput_breakConnection (Port node k) s') s [0..<numInputs s node])
       [0..<numOutputs s node]"

definition map_erase :: "'k \<Rightarrow> ('k \<times> 'v) list \<Rightarrow> ('k \<times> 'v) list" where
  "map_erase k m = filter (\<lambda>kv. fst kv \<noteq> k) m"

definition remove_node :: "node_id \<Rightarrow> sg_state \<Rightarrow> sg_state" where
  "remove_node node s =
     (let s1 = disconnect node s
      in s1\<lparr>colorTransformMap := map_erase node (colorTransformMap s1),
            nodeMap := map_erase (nd_name s1 node) (nodeMap s1)\<rparr>)"

definition remove_unused :: "node_id list \<Rightarrow> sg_state \<Rightarrow> sg_state" where
  "remove_unused usedNodes s =
     (foldl (\<lambda>s' node. if node \<in> set usedNodes then s' else remove_node node s') s (nodeOrder s))
       \<lparr>nodeOrder := usedNodes\<rparr>"

text \<open>\<open>SgNodeGraph::optimize\<close>.\<close>

definition optimize :: "nat \<Rightarrow> sg_state \<Rightarrow> (error + sg_state) option" where
  "optimize fuel s =
     (case optimize_loop (nodeOrder s) s 0 of
        Inl e \<Rightarrow> Some (Inl e)
      | Inr (s1, numEdits) \<Rightarrow>
         (if numEdits > 0 then
            (case find_used_nodes fuel s1 (getOutputSockets s1) [] of
               None \<Rightarrow> None
             | Some (Inl e) \<Rightarrow> Some (Inl e)
             | Some (Inr usedNodes) \<Rightarrow> Some (Inr (remove_unused usedNodes s1)))
          else Some (Inr s1)))"

subsection \<open>Creating a node from a node definition\<close>

text \<open>The document and the generator are outside the sources. What the code reads of
  them is modelled as data and as parameters:
  \<^item> a \<open>ValueElement\<close> child of a node definition or node instance: its name, type,
    whether it is an \<open>Output\<close>, its value string and its value;
  \<^item> a \<open>NodeDef\<close>: its node string, node group, type, attributes (\<open>getAttribute\<close> returns
    the empty string for an attribute that is not set) and value-element children;
  \<^item> a \<open>GeomProp\<close>: its name, space, index and attribute name;
  \<^item> the document, through \<open>getNodeDef\<close>: a partial function from names to node
    definitions;
  \<^item> the generator, through the implementation it finds for a node definition for its
    target and language (\<open>nodeDef.getImplementation\<close> followed by
    \<open>shadergen.getImplementation\<close>): a handle, or none. \<open>addNodeContextIDs\<close> touches no
    field of the model and is left out.\<close>

record value_element =
  ve_name :: string
  ve_type :: string
  ve_isOutput :: bool
  ve_valueString :: string
  ve_value :: "val option"

record node_def =
  ndf_nodeString :: string
  ndf_nodeGroup :: string
  ndf_type :: string
  ndf_attributes :: "(string \<times> string) list"
  ndf_children :: "value_element list"

record geom_prop =
  gp_name :: string
  gp_space :: string
  gp_index :: string
  gp_attrname :: string

type_synonym document = "string \<Rightarrow> node_def option"
type_synonym shader_generator = "node_def \<Rightarrow> nat option"

definition getAttribute :: "node_def \<Rightarrow> string \<Rightarrow> string" where
  "getAttribute nd a = (case map_of (ndf_attributes nd) a of None \<Rightarrow> [] | Some v \<Rightarrow> v)"

text \<open>\<open>SgNode::addInput\<close> and \<open>addOutput\<close>: the new port takes the next position of the
  order vector. Its connection is null (an input) or the empty set (an output).\<close>

definition addInput :: "node_id \<Rightarrow> string \<Rightarrow> string \<Rightarrow> sg_state \<Rightarrow> error + (input_ref \<times> sg_state)" where
  "addInput n name type s =
     (if getInput_named s n name \<noteq> None then Inl DuplicatePortName
      else (let input = Port n (numInputs s n)
            in Inr (input,
                 s\<lparr>in_name := (in_name s)(input := name),
                   in_type := (in_type s)(input := type),
                   in_value := (in_value s)(input := None),
                   in_connection := (in_connection s)(input := None),
                   inputMap := (inputMap s)(n := AList.update name (numInputs s n) (inputMap s n)),
                   numInputs := (numInputs s)(n := Suc (numInputs s n))\<rparr>)))"

definition addOutput :: "node_id \<Rightarrow> string \<Rightarrow> string \<Rightarrow> sg_state \<Rightarrow> error + (output_ref \<times> sg_state)" where
  "addOutput n name type s =
     (if getOutput_named s n name \<noteq> None then Inl DuplicatePortName
      else (let output = Port n (numOutputs s n)
            in Inr (output,
                 s\<lparr>out_name := (out_name s)(output := name),
                   out_type := (out_type s)(output := type),
                   out_connections := (out_connections s)(output := []),
                   outputMap := (outputMap s)(n := AList.update name (numOutputs s n) (outputMap s n)),
                   numOutputs := (numOutputs s)(n := Suc (numOutputs s n))\<rparr>)))"

text \<open>A new \<open>SgNode(name)\<close> at the next free address: classification 0, no sampling
  input, no implementation, no ports, a default scope and no used closures.\<close>

definition new_node :: "string \<Rightarrow> sg_state \<Rightarrow> node_id \<times> sg_state" where
  "new_node name s =
     (next_node s,
      s\<lparr>next_node := Suc (next_node s),
        nd_name := (nd_name s)(next_node s := name),
        nd_classification := (nd_classification s)(next_node s := {}),
        samplingInput := (samplingInput s)(next_node s := None),
        nd_impl := (nd_impl s)(next_node s := None),
        numInputs := (numInputs s)(next_node s := 0),
        numOutputs := (numOutputs s)(next_node s := 0),
        inputMap := (inputMap s)(next_node s := []),
        outputMap := (outputMap s)(next_node s := []),
        scopeInfo := (scopeInfo s)(next_node s := empty_scope),
        usedClosures := (usedClosures s)(next_node s := {}),
        isNodeGraph := (isNodeGraph s)(next_node s := False)\<rparr>)"

definition group_classification :: "string \<Rightarrow> cflag set" where
  "group_classification groupName =
     (if groupName = ''texture2d'' \<or> groupName = ''procedural2d'' then {SAMPLE2D}
      else if groupName = ''texture3d'' \<or> groupName = ''procedural3d'' then {SAMPLE3D}
      else if groupName = ''convolution2d'' then {CONVOLUTION2D}
      else {})"

text \<open>The loop of \<open>SgNode::create\<close> over the value elements of the node definition.\<close>

fun create_interface :: "node_id \<Rightarrow> cflag set \<Rightarrow> value_element list \<Rightarrow> sg_state \<Rightarrow> error + sg_state" where
  "create_interface n groupClassification [] s = Inr s"
| "create_interface n groupClassification (elem # elems) s =
     (if ve_isOutput elem then
        (case addOutput n (ve_name elem) (ve_type elem) s of
           Inl e \<Rightarrow> Inl e
         | Inr (_, s1) \<Rightarrow> create_interface n groupClassification elems s1)
      else
        (case addInput n (ve_name elem) (ve_type elem) s of
           Inl e \<Rightarrow> Inl e
         | Inr (input, s1) \<Rightarrow>
            (let s2 = (if ve_valueString elem \<noteq> []
                       then s1\<lparr>in_value := (in_value s1)(input := ve_value elem)\<rparr> else s1);
                 s3 = (if (groupClassification = {SAMPLE2D} \<and> ve_name elem = ''texcoord'') \<or>
                          (groupClassification = {SAMPLE3D} \<and> ve_name elem = ''position'')
                       then s2\<lparr>samplingInput := (samplingInput s2)(n := Some (port_index input))\<rparr>
                       else s2)
             in create_interface n groupClassification elems s3)))"

text \<open>The loop over the value elements of the node instance, when there is one.\<close>

fun assign_instance_values :: "node_id \<Rightarrow> value_element list \<Rightarrow> sg_state \<Rightarrow> sg_state" where
  "assign_instance_values n [] s = s"
| "assign_instance_values n (elem # elems) s =
     assign_instance_values n elems
       (if ve_valueString elem \<noteq> [] then
          (case getInput_named s n (ve_name elem) of
             None \<Rightarrow> s
           | Some input \<Rightarrow> s\<lparr>in_value := (in_value s)(input := ve_value elem)\<rparr>)
        else s)"

text \<open>The classification by the type of the primary output, then by the node string.\<close>

definition classify :: "string \<Rightarrow> node_def \<Rightarrow> cflag set" where
  "classify primaryType nodeDef =
     (if primaryType = Type_SURFACESHADER then {SURFACE, SHADER}
      else if primaryType = Type_LIGHTSHADER then {LIGHT, SHADER}
      else if primaryType = Type_BSDF then
        {BSDF, CLOSURE} \<union>
        (if getAttribute nodeDef ''bsdf'' = ''R'' then {BSDF_R}
         else if getAttribute nodeDef ''bsdf'' = ''T'' then {BSDF_T} else {})
      else if primaryType = Type_EDF then {EDF, CLOSURE}
      else if primaryType = Type_VDF then {VDF, CLOSURE}
      else if ndf_nodeString nodeDef = ''constant'' then {TEXTURE, CONSTANT}
      else if ndf_nodeString nodeDef = ''image'' \<or> getAttribute nodeDef ''sxclass'' = ''image''
        then {TEXTURE, FILETEXTURE}
      else if ndf_nodeString nodeDef = ''compare'' then {TEXTURE, CONDITIONAL, IFELSE}
      else if ndf_nodeString nodeDef = ''switch'' then {TEXTURE, CONDITIONAL, SWITCH}
      else {TEXTURE})"

text \<open>\<open>SgNode::create\<close>. The node is allocated first; when the function throws, the
  node is dropped with the exception.\<close>

definition SgNode_create :: "shader_generator \<Rightarrow> string \<Rightarrow> node_def \<Rightarrow> value_element list option \<Rightarrow>
    sg_state \<Rightarrow> error + (node_id \<times> sg_state)" where
  "SgNode_create shadergen name nodeDef nodeInstance s =
     (case new_node name s of (n, s0) \<Rightarrow>
       (case shadergen nodeDef of
          None \<Rightarrow> Inl ImplementationNotFound
        | Some impl \<Rightarrow>
           (let s1 = s0\<lparr>nd_impl := (nd_impl s0)(n := Some impl)\<rparr>;
                groupClassification = group_classification (ndf_nodeGroup nodeDef);
                s2 = s1\<lparr>samplingInput := (samplingInput s1)(n := None)\<rparr>
            in (case create_interface n groupClassification (ndf_children nodeDef) s2 of
                  Inl e \<Rightarrow> Inl e
                | Inr s3 \<Rightarrow>
                   (case (if numOutputs s3 n = 0
                          then map_sum id snd (addOutput n ''out'' (ndf_type nodeDef) s3)
                          else Inr s3) of
                      Inl e \<Rightarrow> Inl e
                    | Inr s4 \<Rightarrow>
                       (let s5 = (case nodeInstance of
                                    None \<Rightarrow> s4
                                  | Some elems \<Rightarrow> assign_instance_values n elems s4);
                            cls = classify (out_type s5 (Port n 0)) nodeDef \<union> groupClassification
                        in Inr (n, s5\<lparr>nd_classification := (nd_classification s5)(n := cls)\<rparr>)))))))"

subsection \<open>Default geometry nodes and color transforms\<close>

definition getNode :: "sg_state \<Rightarrow> string \<Rightarrow> node_id option" where
  "getNode s name = map_of (nodeMap s) name"

text \<open>The three optional hints of \<open>addDefaultGeomNode\<close>: a non-empty hint is stored as a
  string value on the input of that name, when the node has one.\<close>

definition set_hint :: "node_id \<Rightarrow> string \<Rightarrow> string \<Rightarrow> sg_state \<Rightarrow> sg_state" where
  "set_hint n inputName hint s =
     (if hint \<noteq> [] then
        (case getInput_named s n inputName of
           None \<Rightarrow> s
         | Some input \<Rightarrow> s\<lparr>in_value := (in_value s)(input := Some (VString hint))\<rparr>)
      else s)"

text \<open>\<open>SgNodeGraph::addDefaultGeomNode\<close>. \<open>node->getOutput()\<close> is the output at index 0.\<close>

definition addDefaultGeomNode :: "document \<Rightarrow> shader_generator \<Rightarrow> input_ref \<Rightarrow> geom_prop \<Rightarrow>
    sg_state \<Rightarrow> error + sg_state" where
  "addDefaultGeomNode doc shadergen input geomprop s =
     (let geomNodeName = ''default_'' @ gp_name geomprop
      in (case (case getNode s geomNodeName of
                  Some node \<Rightarrow> Inr (node, s)
                | None \<Rightarrow>
                   (let geomNodeDefName = ''ND_'' @ gp_name geomprop @ ''_'' @ in_type s input
                    in (case doc geomNodeDefName of
                          None \<Rightarrow> Inl NodeDefNotFound
                        | Some geomNodeDef \<Rightarrow>
                           (case SgNode_create shadergen geomNodeName geomNodeDef None s of
                              Inl e \<Rightarrow> Inl e
                            | Inr (n, s1) \<Rightarrow>
                               (let s2 = s1\<lparr>nodeMap := AList.update geomNodeName n (nodeMap s1),
                                           nodeOrder := nodeOrder s1 @ [n]\<rparr>;
                                    s3 = set_hint n ''space'' (gp_space geomprop) s2;
                                    s4 = set_hint n ''index'' (gp_index geomprop) s3;
                                    s5 = set_hint n ''attrname'' (gp_attrname geomprop) s4
                                in Inr (n, s5)))))) of
            Inl e \<Rightarrow> Inl e
          | Inr (node, s') \<Rightarrow>
             (case getOutput_at s' node 0 of
                Inl e \<Rightarrow> Inl e
              | Inr output \<Rightarrow> Inr (SgInput_makeConnection input output s'))))"

text \<open>\<open>SgNodeGraph::addColorTransformNode\<close>.\<close>

definition reconnect :: "output_ref \<Rightarrow> sg_state \<Rightarrow> input_ref \<Rightarrow> sg_state" where
  "reconnect nodeOutput s downstreamInput =
     SgInput_makeConnection downstreamInput nodeOutput (SgInput_breakConnection downstreamInput s)"

definition addColorTransformNode :: "document \<Rightarrow> shader_generator \<Rightarrow> output_ref \<Rightarrow> string \<Rightarrow>
    sg_state \<Rightarrow> error + sg_state" where
  "addColorTransformNode doc shadergen output colorTransform s =
     (let nodeDefName = ''ND_'' @ colorTransform @ ''_'' @ out_type s output
      in (case doc nodeDefName of
            None \<Rightarrow> Inr s
          | Some nodeDef \<Rightarrow>
             (let nodeName = nd_name s (port_node output) @ ''_'' @ colorTransform
              in (case SgNode_create shadergen nodeName nodeDef None s of
                    Inl e \<Rightarrow> Inl e
                  | Inr (node, s1) \<Rightarrow>
                     (let s2 = s1\<lparr>nodeMap := AList.update nodeName node (nodeMap s1),
                                 nodeOrder := nodeOrder s1 @ [node]\<rparr>
                      in (case getOutput_at s2 node 0 of
                            Inl e \<Rightarrow> Inl e
                          | Inr nodeOutput \<Rightarrow>
                             (let s3 = foldl (reconnect nodeOutput) s2 (out_connections s2 output)
                              in (case getInput_at s3 node 0 of
                                    Inl e \<Rightarrow> Inl e
                                  | Inr nodeInput \<Rightarrow>
                                      Inr (SgInput_makeConnection nodeInput output s3)))))))))"

subsection \<open>Topological sort\<close>

text \<open>The in-degree of a node: the number of its inputs that are connected to an output
  of a node other than the graph itself.\<close>

definition in_degree :: "sg_state \<Rightarrow> node_id \<Rightarrow> int" where
  "in_degree s node =
     foldl (\<lambda>connectionCount k.
              (case in_connection s (Port node k) of
                 Some c \<Rightarrow> if port_node c \<noteq> this_graph s then connectionCount + 1 else connectionCount
               | None \<Rightarrow> connectionCount))
       0 [0..<numInputs s node]"

text \<open>The first loop of \<open>topologicalSort\<close>, over the node map: the table of in-degrees
  (an unordered map, read with \<open>operator[]\<close>, so a node without an entry reads as 0) and
  the queue of the nodes of in-degree 0.\<close>

definition topo_enqueue :: "sg_state \<Rightarrow> (node_id \<Rightarrow> int) \<times> node_id list \<Rightarrow> string \<times> node_id \<Rightarrow>
    (node_id \<Rightarrow> int) \<times> node_id list" where
  "topo_enqueue s dq entry =
     (case dq of (inDegree, nodeQueue) \<Rightarrow>
        (inDegree(snd entry := in_degree s (snd entry)),
         if in_degree s (snd entry) = 0 then nodeQueue @ [snd entry] else nodeQueue))"

definition topo_init :: "sg_state \<Rightarrow> (node_id \<Rightarrow> int) \<times> node_id list" where
  "topo_init s = foldl (topo_enqueue s) (\<lambda>_. 0, []) (nodeMap s)"

text \<open>The body of the two inner loops for one downstream input.\<close>

definition topo_decrement :: "sg_state \<Rightarrow> (node_id \<Rightarrow> int) \<times> node_id list \<Rightarrow> input_ref \<Rightarrow>
    (node_id \<Rightarrow> int) \<times> node_id list" where
  "topo_decrement s dq input =
     (case dq of (inDegree, nodeQueue) \<Rightarrow>
        (if port_node input \<noteq> this_graph s then
           (inDegree(port_node input := inDegree (port_node input) - 1),
            if inDegree (port_node input) - 1 \<le> 0 then nodeQueue @ [port_node input] else nodeQueue)
         else (inDegree, nodeQueue)))"

definition topo_visit :: "sg_state \<Rightarrow> node_id \<Rightarrow> (node_id \<Rightarrow> int) \<times> node_id list \<Rightarrow>
    (node_id \<Rightarrow> int) \<times> node_id list" where
  "topo_visit s node dq =
     foldl (\<lambda>dq' k. foldl (topo_decrement s) dq' (out_connections s (Port node k)))
       dq [0..<numOutputs s node]"

text \<open>The \<open>while\<close> loop. \<open>_nodeOrder\<close> has been resized to the size of the node map and
  \<open>order\<close> is its filled prefix, \<open>count\<close> its length; writing at an index that is not
  below the size is undefined behaviour in C++ and \<open>IndexOutOfRange\<close> here.\<close>

function topo_loop :: "sg_state \<Rightarrow> node_id list \<Rightarrow> (node_id \<Rightarrow> int) \<Rightarrow> node_id list \<Rightarrow> error + node_id list" where
  "topo_loop s nodeQueue inDegree order =
     (case nodeQueue of
        [] \<Rightarrow> Inr order
      | node # queue \<Rightarrow>
         (if length (nodeMap s) \<le> length order then Inl IndexOutOfRange
          else (case topo_visit s node (inDegree, queue) of
                  (inDegree', queue') \<Rightarrow> topo_loop s queue' inDegree' (order @ [node]))))"
  by pat_completeness auto
termination
  by (relation "measure (\<lambda>(s, nodeQueue, inDegree, order). length (nodeMap s) - length order)") auto

declare topo_loop.simps [simp del]

definition topo_order :: "sg_state \<Rightarrow> error + node_id list" where
  "topo_order s = (case topo_init s of (inDegree, nodeQueue) \<Rightarrow> topo_loop s nodeQueue inDegree [])"

definition topologicalSort :: "sg_state \<Rightarrow> error + sg_state" where
  "topologicalSort s =
     (case topo_order s of
        Inl e \<Rightarrow> Inl e
      | Inr order \<Rightarrow>
         (if length order \<noteq> length (nodeMap s) then Inl Cycle
          else Inr (s\<lparr>nodeOrder := order\<rparr>)))"

subsection \<open>Scopes\<close>

text \<open>\<open>ScopeInfo::adjustAtConditionalInput\<close> and \<open>ScopeInfo::merge\<close>. \<open>1 << branch\<close> is
  computed on \<open>int\<close> and stored in a \<open>uint32_t\<close>; the model shifts the 32-bit word, which
  agrees for \<open>branch < 31\<close>.\<close>

definition adjustAtConditionalInput :: "node_id \<Rightarrow> nat \<Rightarrow> 32 word \<Rightarrow> scope_info \<Rightarrow> scope_info" where
  "adjustAtConditionalInput condNode branch fullMask sc =
     (if sc_type sc = GLOBAL \<or> (sc_type sc = SINGLE \<and> conditionBitmask sc = fullConditionMask sc) then
        sc\<lparr>sc_type := SINGLE, conditionalNode := Some condNode,
           conditionBitmask := push_bit branch 1, fullConditionMask := fullMask\<rparr>
      else if sc_type sc = SINGLE then
        sc\<lparr>sc_type := MULTIPLE, conditionalNode := None\<rparr>
      else sc)"

definition merge_scope :: "scope_info \<Rightarrow> scope_info \<Rightarrow> scope_info" where
  "merge_scope fromScope sc =
     (if sc_type sc = UNKNOWN \<or> sc_type fromScope = GLOBAL then fromScope
      else if sc_type sc = GLOBAL then sc
      else if sc_type sc = SINGLE \<and> sc_type fromScope = SINGLE \<and>
              conditionalNode sc = conditionalNode fromScope then
        (if conditionBitmask sc OR conditionBitmask fromScope = fullConditionMask sc then
           sc\<lparr>conditionBitmask := conditionBitmask sc OR conditionBitmask fromScope,
              sc_type := GLOBAL, conditionalNode := None\<rparr>
         else sc\<lparr>conditionBitmask := conditionBitmask sc OR conditionBitmask fromScope\<rparr>)
      else sc\<lparr>sc_type := MULTIPLE, conditionalNode := None\<rparr>)"

text \<open>The scope handed up through input \<open>inputIndex\<close> of \<open>node\<close>. \<open>currentScopeInfo\<close> is
  a reference to the node's scope, so it is read from the store at every input.\<close>

definition branch_scope :: "sg_state \<Rightarrow> node_id \<Rightarrow> nat \<Rightarrow> scope_info" where
  "branch_scope s node inputIndex =
     (if hasClassification s node IFELSE \<and> (inputIndex = 2 \<or> inputIndex = 3) then
        adjustAtConditionalInput node inputIndex 0x12 (scopeInfo s node)
      else if hasClassification s node SWITCH then
        adjustAtConditionalInput node inputIndex (push_bit (numInputs s node) 1 - 1) (scopeInfo s node)
      else scopeInfo s node)"

text \<open>The body of the loop over the inputs of a node, and the body of the loop over the
  nodes; \<open>nodeUsed\<close> is a set of node pointers of which only membership is read.\<close>

definition scope_input :: "node_id \<Rightarrow> sg_state \<times> node_id set \<Rightarrow> nat \<Rightarrow> sg_state \<times> node_id set" where
  "scope_input node su inputIndex =
     (case su of (s, nodeUsed) \<Rightarrow>
        (case in_connection s (Port node inputIndex) of
           None \<Rightarrow> (s, nodeUsed)
         | Some c \<Rightarrow>
            (s\<lparr>scopeInfo := (scopeInfo s)(port_node c :=
                   merge_scope (branch_scope s node inputIndex) (scopeInfo s (port_node c)))\<rparr>,
             insert (port_node c) nodeUsed)))"

definition scope_node :: "sg_state \<times> node_id set \<Rightarrow> node_id \<Rightarrow> sg_state \<times> node_id set" where
  "scope_node su node =
     (if node \<in> snd su then foldl (scope_input node) su [0..<numInputs (fst su) node] else su)"

text \<open>\<open>SgNodeGraph::calculateScopes\<close>: the loop runs over the node order from its last
  index down to 0. \<open>scopes_pass\<close> is the store and the used set when the loop ends.\<close>

definition scopes_pass :: "sg_state \<Rightarrow> sg_state \<times> node_id set" where
  "scopes_pass s =
     foldl scope_node
       (s\<lparr>scopeInfo := (scopeInfo s)(last (nodeOrder s) :=
            (scopeInfo s (last (nodeOrder s)))\<lparr>sc_type := GLOBAL\<rparr>)\<rparr>,
        {last (nodeOrder s)})
       (rev (nodeOrder s))"

definition calculateScopes :: "sg_state \<Rightarrow> sg_state" where
  "calculateScopes s = (if nodeOrder s = [] then s else fst (scopes_pass s))"

subsection \<open>Names\<close>

text \<open>\<open>SgNode::renameOutput\<close> and \<open>renameInput\<close>. The maps own the ports (shared
  pointers) and the order vectors only point to them. When \<open>newName\<close> is already a key,
  the assignment \<open>_outputMap[newName] = it->second\<close> drops the pointer stored there; if no
  other entry holds that port, the port is destroyed while the order vector still points
  to it, and the model stops with \<open>PortDestroyed\<close>.\<close>

definition rename_in_map :: "string \<Rightarrow> string \<Rightarrow> (string \<times> nat) list \<Rightarrow> (string \<times> nat) list" where
  "rename_in_map name newName m =
     (case map_of m name of
        None \<Rightarrow> m
      | Some k \<Rightarrow> map_erase name (AList.update newName k m))"

definition drops_port :: "string \<Rightarrow> string \<Rightarrow> (string \<times> nat) list \<Rightarrow> bool" where
  "drops_port name newName m =
     (case map_of m newName of
        None \<Rightarrow> False
      | Some k' \<Rightarrow> k' \<notin> snd ` set (rename_in_map name newName m))"

definition renameOutput :: "node_id \<Rightarrow> string \<Rightarrow> string \<Rightarrow> sg_state \<Rightarrow> error + sg_state" where
  "renameOutput n name newName s =
     (if name \<noteq> newName then
        (case map_of (outputMap s n) name of
           None \<Rightarrow> Inr s
         | Some k \<Rightarrow>
            (if drops_port name newName (outputMap s n) then Inl PortDestroyed
             else Inr (s\<lparr>out_name := (out_name s)(Port n k := newName),
                         outputMap := (outputMap s)(n := rename_in_map name newName (outputMap s n))\<rparr>)))
      else Inr s)"

definition renameInput :: "node_id \<Rightarrow> string \<Rightarrow> string \<Rightarrow> sg_state \<Rightarrow> error + sg_state" where
  "renameInput n name newName s =
     (if name \<noteq> newName then
        (case map_of (inputMap s n) name of
           None \<Rightarrow> Inr s
         | Some k \<Rightarrow>
            (if drops_port name newName (inputMap s n) then Inl PortDestroyed
             else Inr (s\<lparr>in_name := (in_name s)(Port n k := newName),
                         inputMap := (inputMap s)(n := rename_in_map name newName (inputMap s n))\<rparr>)))
      else Inr s)"

text \<open>The syntax service is outside the sources: \<open>makeUnique(name, uniqueNames)\<close> is a
  parameter, a function from a name and the record of the names in use to the new name
  and the new record.

  The three loops of \<open>validateNames\<close>. The first and the third make a copy of the name
  unique and rename the port to it. The second hands the socket's own \<open>name\<close> field to
  \<open>makeUnique\<close>, which changes it in place, and then calls \<open>renameOutputSocket\<close> with the
  changed name as the old name and the copy of the original as the new one.\<close>

fun validate_input_sockets :: "(string \<Rightarrow> 'u \<Rightarrow> string \<times> 'u) \<Rightarrow> output_ref list \<Rightarrow> sg_state \<times> 'u \<Rightarrow>
    error + (sg_state \<times> 'u)" where
  "validate_input_sockets makeUnique [] su = Inr su"
| "validate_input_sockets makeUnique (inputSocket # sockets) (s, uniqueNames) =
     (case makeUnique (out_name s inputSocket) uniqueNames of
        (name, uniqueNames') \<Rightarrow>
          (case renameOutput (port_node inputSocket) (out_name s inputSocket) name s of
             Inl e \<Rightarrow> Inl e
           | Inr s' \<Rightarrow> validate_input_sockets makeUnique sockets (s', uniqueNames')))"

fun validate_output_sockets :: "(string \<Rightarrow> 'u \<Rightarrow> string \<times> 'u) \<Rightarrow> input_ref list \<Rightarrow> sg_state \<times> 'u \<Rightarrow>
    error + (sg_state \<times> 'u)" where
  "validate_output_sockets makeUnique [] su = Inr su"
| "validate_output_sockets makeUnique (outputSocket # sockets) (s, uniqueNames) =
     (case makeUnique (in_name s outputSocket) uniqueNames of
        (unique, uniqueNames') \<Rightarrow>
          (case renameInput (port_node outputSocket) unique (in_name s outputSocket)
                  (s\<lparr>in_name := (in_name s)(outputSocket := unique)\<rparr>) of
             Inl e \<Rightarrow> Inl e
           | Inr s' \<Rightarrow> validate_output_sockets makeUnique sockets (s', uniqueNames')))"

fun validate_node_outputs :: "(string \<Rightarrow> 'u \<Rightarrow> string \<times> 'u) \<Rightarrow> output_ref list \<Rightarrow> sg_state \<times> 'u \<Rightarrow>
    error + (sg_state \<times> 'u)" where
  "validate_node_outputs makeUnique [] su = Inr su"
| "validate_node_outputs makeUnique (output # outputs) (s, uniqueNames) =
     (case makeUnique (nd_name s (port_node output) @ ''_'' @ out_name s output) uniqueNames of
        (name, uniqueNames') \<Rightarrow>
          (case renameOutput (port_node output) (out_name s output) name s of
             Inl e \<Rightarrow> Inl e
           | Inr s' \<Rightarrow> validate_node_outputs makeUnique outputs (s', uniqueNames')))"

definition node_outputs :: "sg_state \<Rightarrow> output_ref list" where
  "node_outputs s = concat (map (\<lambda>node. map (Port node) [0..<numOutputs s node]) (nodeOrder s))"

definition validateNames :: "(string \<Rightarrow> 'u \<Rightarrow> string \<times> 'u) \<Rightarrow> 'u \<Rightarrow> sg_state \<Rightarrow> error + sg_state" where
  "validateNames makeUnique noNames s =
     (case validate_input_sockets makeUnique (getInputSockets s) (s, noNames) of
        Inl e \<Rightarrow> Inl e
      | Inr su1 \<Rightarrow>
         (case validate_output_sockets makeUnique (getOutputSockets s) su1 of
            Inl e \<Rightarrow> Inl e
          | Inr su2 \<Rightarrow>
             (case validate_node_outputs makeUnique (node_outputs s) su2 of
                Inl e \<Rightarrow> Inl e
              | Inr su3 \<Rightarrow> Inr (fst su3))))"

subsection \<open>Closure tracking and finalize\<close>

text \<open>The last loop of \<open>finalize\<close>: for a node classified \<open>SHADER\<close>, every edge upstream
  of its output 0 whose upstream node is classified \<open>CLOSURE\<close> adds that node to the used
  closures.\<close>

fun insert_closures :: "node_id \<Rightarrow> (output_ref option \<times> input_ref option) list \<Rightarrow> sg_state \<Rightarrow> sg_state" where
  "insert_closures node [] s = s"
| "insert_closures node ((None, _) # es) s = insert_closures node es s"
| "insert_closures node ((Some upstream, _) # es) s =
     insert_closures node es
       (if hasClassification s (port_node upstream) CLOSURE
        then s\<lparr>usedClosures := (usedClosures s)(node := insert (port_node upstream) (usedClosures s node))\<rparr>
        else s)"

fun track_closures :: "nat \<Rightarrow> node_id list \<Rightarrow> sg_state \<Rightarrow> (error + sg_state) option" where
  "track_closures fuel [] s = Some (Inr s)"
| "track_closures fuel (node # nodes) s =
     (if hasClassification s node SHADER then
        (case getOutput_at s node 0 of
           Inl e \<Rightarrow> Some (Inl e)
         | Inr output \<Rightarrow>
            (case traverseUpstream fuel s output of
               None \<Rightarrow> None
             | Some (Inl e) \<Rightarrow> Some (Inl e)
             | Some (Inr es) \<Rightarrow> track_closures fuel nodes (insert_closures node es s)))
      else track_closures fuel nodes s)"

text \<open>The loop of \<open>finalize\<close> over the color-transform work list.\<close>

fun add_color_transforms :: "document \<Rightarrow> shader_generator \<Rightarrow> (node_id \<times> string) list \<Rightarrow> sg_state \<Rightarrow> error + sg_state" where
  "add_color_transforms doc shadergen [] s = Inr s"
| "add_color_transforms doc shadergen ((node, colorTransform) # work) s =
     (case getOutput_at s node 0 of
        Inl e \<Rightarrow> Inl e
      | Inr output \<Rightarrow>
         (case addColorTransformNode doc shadergen output colorTransform s of
            Inl e \<Rightarrow> Inl e
          | Inr s' \<Rightarrow> add_color_transforms doc shadergen work s'))"

text \<open>\<open>SgNodeGraph::finalize\<close>.\<close>

definition finalize :: "nat \<Rightarrow> document \<Rightarrow> shader_generator \<Rightarrow> (string \<Rightarrow> 'u \<Rightarrow> string \<times> 'u) \<Rightarrow> 'u \<Rightarrow>
    sg_state \<Rightarrow> (error + sg_state) option" where
  "finalize fuel doc shadergen makeUnique noNames s =
     (case optimize fuel s of
        None \<Rightarrow> None
      | Some (Inl e) \<Rightarrow> Some (Inl e)
      | Some (Inr s1) \<Rightarrow>
         (case add_color_transforms doc shadergen (colorTransformMap s1) s1 of
            Inl e \<Rightarrow> Some (Inl e)
          | Inr s2 \<Rightarrow>
             (case topologicalSort (s2\<lparr>colorTransformMap := []\<rparr>) of
                Inl e \<Rightarrow> Some (Inl e)
              | Inr s3 \<Rightarrow>
                 (case validateNames makeUnique noNames (calculateScopes s3) of
                    Inl e \<Rightarrow> Some (Inl e)
                  | Inr s4 \<Rightarrow> track_closures fuel (nodeOrder s4) s4))))"

subsection \<open>What the claims about ordering and scopes speak of\<close>

text \<open>Node \<open>m\<close> drives node \<open>n\<close> when an input of \<open>n\<close> is connected to an output of \<open>m\<close>.
  An order is topological when no node of it is driven by itself or by a node that comes
  after it.\<close>

definition drives :: "sg_state \<Rightarrow> node_id \<Rightarrow> node_id \<Rightarrow> bool" where
  "drives s m n \<longleftrightarrow> (\<exists>k<numInputs s n. \<exists>c. in_connection s (Port n k) = Some c \<and> port_node c = m)"

definition topological :: "sg_state \<Rightarrow> node_id list \<Rightarrow> bool" where
  "topological s order \<longleftrightarrow>
     sorted_wrt (\<lambda>n m. \<not> drives s m n) order \<and> (\<forall>n\<in>set order. \<not> drives s n n)"

text \<open>The scope of a node needed only on branch input 2 of the if/else node \<open>c\<close>; a set
  \<open>S\<close> of nodes that the visited nodes consume only through input 2 of \<open>c\<close> or through
  inputs of nodes of \<open>S\<close> that are no branch of a conditional; and the nodes of \<open>S\<close>
  upstream of input 2 of \<open>c\<close> through nodes of \<open>S\<close>.\<close>

definition single_branch_scope :: "node_id \<Rightarrow> scope_info" where
  "single_branch_scope c =
     \<lparr>sc_type = SINGLE, conditionalNode = Some c, conditionBitmask = 4, fullConditionMask = 0x12\<rparr>"

definition only_through_branch2 :: "sg_state \<Rightarrow> node_id \<Rightarrow> node_id set \<Rightarrow> bool" where
  "only_through_branch2 s c S \<longleftrightarrow>
     (\<forall>n\<in>set (nodeOrder s). \<forall>k<numInputs s n. \<forall>u.
        in_connection s (Port n k) = Some u \<longrightarrow> port_node u \<in> S \<longrightarrow>
        (n = c \<and> k = 2) \<or>
        (n \<in> S \<and> \<not> hasClassification s n SWITCH \<and>
         \<not> (hasClassification s n IFELSE \<and> (k = 2 \<or> k = 3))))"

inductive_set branch2_cone :: "sg_state \<Rightarrow> node_id \<Rightarrow> node_id set \<Rightarrow> node_id set"
  for s :: sg_state and c :: node_id and S :: "node_id set" where
  base: "2 < numInputs s c \<Longrightarrow> in_connection s (Port c 2) = Some u \<Longrightarrow> port_node u \<in> S \<Longrightarrow>
         port_node u \<in> branch2_cone s c S"
| step: "n \<in> branch2_cone s c S \<Longrightarrow> n \<in> set (nodeOrder s) \<Longrightarrow> k < numInputs s n \<Longrightarrow>
         in_connection s (Port n k) = Some u \<Longrightarrow> port_node u \<in> S \<Longrightarrow>
         port_node u \<in> branch2_cone s c S"

definition same_graph :: "sg_state \<Rightarrow> sg_state \<Rightarrow> bool" where
  "same_graph s s' \<longleftrightarrow> in_connection s' = in_connection s \<and> numInputs s' = numInputs s \<and>
     nd_classification s' = nd_classification s"

text \<open>The invariant of the pass over the nodes, for the proof below: the pass changes
  nothing but scopes; a node whose scope is no longer \<open>UNKNOWN\<close> is in the used set; a
  node of \<open>S\<close> has the single-branch scope of \<open>c\<close>, or is untouched and unused; and the
  drivers of a visited node that is used are used.\<close>

definition scope_inv :: "sg_state \<Rightarrow> node_id \<Rightarrow> node_id set \<Rightarrow> sg_state \<times> node_id set \<Rightarrow> node_id set \<Rightarrow> bool" where
  "scope_inv s c S su visited \<longleftrightarrow>
     same_graph s (fst su) \<and>
     (\<forall>n. sc_type (scopeInfo (fst su) n) \<noteq> UNKNOWN \<longrightarrow> n \<in> snd su) \<and>
     (\<forall>X\<in>S. scopeInfo (fst su) X = single_branch_scope c \<or>
              (sc_type (scopeInfo (fst su) X) = UNKNOWN \<and> X \<notin> snd su)) \<and>
     (\<forall>n\<in>visited. n \<in> snd su \<longrightarrow> (\<forall>m. drives s m n \<longrightarrow> m \<in> snd su))"

subsection \<open>What the proof about the optimizer speaks of\<close>

text \<open>What an edit of the optimizer leaves alone: the nodes, their names, classifications
  and port counts. What the removal of a node leaves alone: the values, the names, the
  port counts and the order (assigned afterwards); it only shrinks the node map and
  breaks connections.\<close>

definition same_nodes :: "sg_state \<Rightarrow> sg_state \<Rightarrow> bool" where
  "same_nodes s s' \<longleftrightarrow>
     nodeOrder s' = nodeOrder s \<and> nodeMap s' = nodeMap s \<and> nd_name s' = nd_name s \<and>
     nd_classification s' = nd_classification s \<and> numInputs s' = numInputs s \<and>
     numOutputs s' = numOutputs s \<and> this_graph s' = this_graph s \<and> inputMap s' = inputMap s \<and>
     isNodeGraph s' = isNodeGraph s \<and> in_type s' = in_type s"




definition has_consumer :: "sg_state \<Rightarrow> output_ref \<Rightarrow> bool" where
  "has_consumer s outp \<longleftrightarrow> (\<exists>i. in_connection s i = Some outp)"

subsection \<open>What the proofs about the edge iterator speak of\<close>








definition keeps :: "node_id set \<Rightarrow> sg_state \<Rightarrow> sg_state \<Rightarrow> bool" where
  "keeps R s s' \<longleftrightarrow>
     (\<forall>i u. in_connection s i = Some u \<longrightarrow> port_node i \<notin> R \<longrightarrow> port_node u \<notin> R \<longrightarrow>
        in_connection s' i = Some u)"

subsection \<open>Example graphs\<close>

text \<open>Scenario 2 of the spec: a \<open>compare\<close> node (node 2) whose \<open>intest\<close> is driven by a
  constant node (node 1, literal \<open>t\<close>), with \<open>cutoff\<close> 0.5 and its two branches driven by
  nodes 3 and 4; its output feeds the output socket of the graph (node 0).\<close>

definition ifelse_graph :: "rat \<Rightarrow> sg_state" where
  "ifelse_graph t =
     \<lparr>in_name = (\<lambda>_. []), in_type = (\<lambda>_. []),
      in_value = (\<lambda>_. None)(Port 1 0 := Some (VFloat t), Port 2 1 := Some (VFloat (1/2))),
      in_connection = (\<lambda>_. None)(Port 2 0 := Some (Port 1 0), Port 2 2 := Some (Port 3 0),
          Port 2 3 := Some (Port 4 0), Port 0 0 := Some (Port 2 0)),
      out_name = (\<lambda>_. []), out_type = (\<lambda>_. []),
      out_connections = (\<lambda>_. [])(Port 1 0 := [Port 2 0], Port 3 0 := [Port 2 2],
          Port 4 0 := [Port 2 3], Port 2 0 := [Port 0 0]),
      nd_name = (\<lambda>_. [])(1 := ''test'', 2 := ''compare1'', 3 := ''red'', 4 := ''green''),
      nd_classification = (\<lambda>_. {})(1 := {TEXTURE, CONSTANT}, 2 := {TEXTURE, CONDITIONAL, IFELSE},
          3 := {TEXTURE}, 4 := {TEXTURE}),
      numInputs = (\<lambda>_. 0)(0 := 1, 1 := 1, 2 := 4),
      numOutputs = (\<lambda>_. 0)(1 := 1, 2 := 1, 3 := 1, 4 := 1),
      inputMap = (\<lambda>_. [])(2 := [(''intest'', 0), (''cutoff'', 1), (''in1'', 2), (''in2'', 3)]),
      outputMap = (\<lambda>_. []),
      scopeInfo = (\<lambda>_. empty_scope), usedClosures = (\<lambda>_. {}), isNodeGraph = (\<lambda>n. n = 0),
      samplingInput = (\<lambda>_. None), nd_impl = (\<lambda>_. None),
      nodeMap = [(''test'', 1), (''compare1'', 2), (''red'', 3), (''green'', 4)],
      nodeOrder = [1, 2, 3, 4], colorTransformMap = [],
      this_graph = 0, next_node = 5\<rparr>"


text \<open>A document with one node definition, for the \<open>texcoord\<close> geometry node of type
  \<open>vector2\<close>, and none for a color transform; a generator that has an implementation for
  every node definition; and a graph of two image nodes (nodes 1 and 2) whose \<open>texcoord\<close>
  inputs are unbound, the first feeding the output socket.\<close>

definition example_doc :: document where
  "example_doc = (\<lambda>_. None)(''ND_texcoord_vector2'' :=
     Some \<lparr>ndf_nodeString = ''texcoord'', ndf_nodeGroup = ''geometric'', ndf_type = ''vector2'',
           ndf_attributes = [],
           ndf_children = [\<lparr>ve_name = ''index'', ve_type = ''integer'', ve_isOutput = False,
                             ve_valueString = ''0'', ve_value = Some (VInteger 0)\<rparr>]\<rparr>)"

definition example_generator :: shader_generator where
  "example_generator = (\<lambda>_. Some 1)"

definition image_graph :: sg_state where
  "image_graph =
     \<lparr>in_name = (\<lambda>_. [])(Port 1 0 := ''texcoord'', Port 2 0 := ''texcoord''),
      in_type = (\<lambda>_. [])(Port 1 0 := ''vector2'', Port 2 0 := ''vector2''),
      in_value = (\<lambda>_. None),
      in_connection = (\<lambda>_. None)(Port 0 0 := Some (Port 1 0)),
      out_name = (\<lambda>_. [])(Port 1 0 := ''out'', Port 2 0 := ''out''),
      out_type = (\<lambda>_. [])(Port 1 0 := ''color3'', Port 2 0 := ''color3''),
      out_connections = (\<lambda>_. [])(Port 1 0 := [Port 0 0]),
      nd_name = (\<lambda>_. [])(1 := ''image1'', 2 := ''image2''),
      nd_classification = (\<lambda>_. {})(1 := {TEXTURE, FILETEXTURE}, 2 := {TEXTURE, FILETEXTURE}),
      numInputs = (\<lambda>_. 0)(0 := 1, 1 := 1, 2 := 1),
      numOutputs = (\<lambda>_. 0)(1 := 1, 2 := 1),
      inputMap = (\<lambda>_. [])(1 := [(''texcoord'', 0)], 2 := [(''texcoord'', 0)]),
      outputMap = (\<lambda>_. [])(1 := [(''out'', 0)], 2 := [(''out'', 0)]),
      scopeInfo = (\<lambda>_. empty_scope), usedClosures = (\<lambda>_. {}), isNodeGraph = (\<lambda>n. n = 0),
      samplingInput = (\<lambda>_. None), nd_impl = (\<lambda>_. None),
      nodeMap = [(''image1'', 1), (''image2'', 2)],
      nodeOrder = [1, 2], colorTransformMap = [(1, ''srgb_linear'')],
      this_graph = 0, next_node = 3\<rparr>"

definition texcoord_prop :: geom_prop where
  "texcoord_prop = \<lparr>gp_name = ''texcoord'', gp_space = [], gp_index = ''0'', gp_attrname = []\<rparr>"

text \<open>A graph with two output sockets. Node 1 feeds the primary output socket and
  input 2 of the if/else node 2, whose test is driven by the graph's input socket and
  which feeds the second output socket.\<close>

definition two_output_graph :: sg_state where
  "two_output_graph =
     \<lparr>in_name = (\<lambda>_. [])(Port 0 0 := ''out1'', Port 0 1 := ''out2''),
      in_type = (\<lambda>_. []),
      in_value = (\<lambda>_. None)(Port 2 1 := Some (VFloat (1/2)), Port 2 3 := Some (VFloat 0)),
      in_connection = (\<lambda>_. None)(Port 0 0 := Some (Port 1 0), Port 0 1 := Some (Port 2 0),
          Port 2 0 := Some (Port 0 0), Port 2 2 := Some (Port 1 0)),
      out_name = (\<lambda>_. [])(Port 0 0 := ''x'', Port 1 0 := ''out'', Port 2 0 := ''out''),
      out_type = (\<lambda>_. []),
      out_connections = (\<lambda>_. [])(Port 0 0 := [Port 2 0], Port 1 0 := [Port 0 0, Port 2 2],
          Port 2 0 := [Port 0 1]),
      nd_name = (\<lambda>_. [])(0 := ''graph'', 1 := ''a'', 2 := ''compare1''),
      nd_classification = (\<lambda>_. {})(1 := {TEXTURE}, 2 := {TEXTURE, CONDITIONAL, IFELSE}),
      numInputs = (\<lambda>_. 0)(0 := 2, 2 := 4),
      numOutputs = (\<lambda>_. 0)(0 := 1, 1 := 1, 2 := 1),
      inputMap = (\<lambda>_. [])(0 := [(''out1'', 0), (''out2'', 1)],
          2 := [(''intest'', 0), (''cutoff'', 1), (''in1'', 2), (''in2'', 3)]),
      outputMap = (\<lambda>_. [])(0 := [(''x'', 0)], 1 := [(''out'', 0)], 2 := [(''out'', 0)]),
      scopeInfo = (\<lambda>_. empty_scope), usedClosures = (\<lambda>_. {}), isNodeGraph = (\<lambda>n. n = 0),
      samplingInput = (\<lambda>_. None), nd_impl = (\<lambda>_. None),
      nodeMap = [(''compare1'', 2), (''a'', 1)],
      nodeOrder = [2, 1], colorTransformMap = [],
      this_graph = 0, next_node = 3\<rparr>"




section \<open>Connection symmetry\<close>

lemma I1_empty_state: "I1 empty_state"
  by (simp add: I1_def empty_state_def)

lemma I1_D1: "I1 s \<Longrightarrow> in_connection s i = Some outp \<Longrightarrow> i \<in> set (out_connections s outp)"
  unfolding I1_def by blast

lemma I1_D2: "I1 s \<Longrightarrow> i \<in> set (out_connections s outp) \<Longrightarrow> in_connection s i = Some outp"
  unfolding I1_def by blast

lemma I1_I:
  assumes "\<And>i outp. in_connection s i = Some outp \<Longrightarrow> i \<in> set (out_connections s outp)"
    and "\<And>i outp. i \<in> set (out_connections s outp) \<Longrightarrow> in_connection s i = Some outp"
  shows "I1 s"
  unfolding I1_def using assms by blast

lemma I1_SgInput_breakConnection: "I1 s \<Longrightarrow> I1 (SgInput_breakConnection i s)"
proof (cases "in_connection s i")
  case None
  assume "I1 s"
  with None show ?thesis by (simp add: SgInput_breakConnection_def)
next
  case (Some c)
  assume s: "I1 s"
  show ?thesis
  proof (rule I1_I)
    fix j outp
    assume "in_connection (SgInput_breakConnection i s) j = Some outp"
    with Some have "j \<noteq> i" "in_connection s j = Some outp"
      by (auto simp: SgInput_breakConnection_def split: if_splits)
    with I1_D1 [OF s] Some show "j \<in> set (out_connections (SgInput_breakConnection i s) outp)"
      by (auto simp: SgInput_breakConnection_def)
  next
    fix j outp
    assume "j \<in> set (out_connections (SgInput_breakConnection i s) outp)"
    with Some have "j \<noteq> i \<or> outp \<noteq> c" "j \<in> set (out_connections s outp)"
      by (auto simp: SgInput_breakConnection_def split: if_splits)
    with I1_D2 [OF s] Some show "in_connection (SgInput_breakConnection i s) j = Some outp"
      by (auto simp: SgInput_breakConnection_def)
  qed
qed

lemma I1_SgOutput_breakConnection: "I1 s \<Longrightarrow> I1 (SgOutput_breakConnection outp s)"
proof (rule I1_I)
  fix j o'
  assume s: "I1 s" and "in_connection (SgOutput_breakConnection outp s) j = Some o'"
  then have "j \<notin> set (out_connections s outp)" "in_connection s j = Some o'"
    by (auto simp: SgOutput_breakConnection_def split: if_splits)
  with I1_D1 [OF s] show "j \<in> set (out_connections (SgOutput_breakConnection outp s) o')"
    by (auto simp: SgOutput_breakConnection_def)
next
  fix j o'
  assume s: "I1 s" and "j \<in> set (out_connections (SgOutput_breakConnection outp s) o')"
  then have ne: "o' \<noteq> outp" and m: "j \<in> set (out_connections s o')"
    by (auto simp: SgOutput_breakConnection_def split: if_splits)
  from I1_D2 [OF s m] have c: "in_connection s j = Some o'" .
  with I1_D2 [OF s, of j outp] ne have "j \<notin> set (out_connections s outp)"
    by auto
  with c show "in_connection (SgOutput_breakConnection outp s) j = Some o'"
    by (simp add: SgOutput_breakConnection_def)
qed

lemma I1_SgInput_makeConnection:
  assumes s: "I1 s" and f: "in_connection s i = None \<or> in_connection s i = Some outp"
  shows "I1 (SgInput_makeConnection i outp s)"
proof (rule I1_I)
  fix j o'
  assume "in_connection (SgInput_makeConnection i outp s) j = Some o'"
  then have "(j = i \<and> o' = outp) \<or> (j \<noteq> i \<and> in_connection s j = Some o')"
    by (auto simp: SgInput_makeConnection_def split: if_splits)
  with I1_D1 [OF s] show "j \<in> set (out_connections (SgInput_makeConnection i outp s) o')"
    by (auto simp: SgInput_makeConnection_def)
next
  fix j o'
  assume "j \<in> set (out_connections (SgInput_makeConnection i outp s) o')"
  then have "(j = i \<and> o' = outp) \<or> j \<in> set (out_connections s o')"
    by (auto simp: SgInput_makeConnection_def split: if_splits)
  with I1_D2 [OF s] f show "in_connection (SgInput_makeConnection i outp s) j = Some o'"
    by (auto simp: SgInput_makeConnection_def)
qed

lemma SgOutput_makeConnection_eq: "SgOutput_makeConnection outp i s = SgInput_makeConnection i outp s"
  by (simp add: SgOutput_makeConnection_def SgInput_makeConnection_def)

lemma I1_SgOutput_makeConnection:
  "I1 s \<Longrightarrow> in_connection s i = None \<or> in_connection s i = Some outp \<Longrightarrow>
   I1 (SgOutput_makeConnection outp i s)"
  by (simp add: SgOutput_makeConnection_eq I1_SgInput_makeConnection)

lemma I1_apply_conn_op: "I1 s \<Longrightarrow> connect_fresh s x \<Longrightarrow> I1 (apply_conn_op s x)"
  by (cases x)
     (simp_all add: I1_SgInput_makeConnection I1_SgInput_breakConnection
        I1_SgOutput_makeConnection I1_SgOutput_breakConnection)

text \<open>
  Claim C1, as the code has it. After any sequence of the four connection mutators in
  which every connect is fresh, connection symmetry (I1) holds again; the two
  disconnects need no condition. \<open>Input.connect(o)\<close> sets the input's connection to
  \<open>o\<close> and inserts the input into \<open>o\<close>'s set, and changes no other set: it does not
  break a connection the input already has. The four operations are total functions of
  the store.
\<close>

theorem connection_symmetry_preserved:
  "I1 s \<Longrightarrow> ops_fresh s ops \<Longrightarrow>
   I1 (foldl apply_conn_op s ops) \<and>
   in_connection (SgInput_makeConnection i outp s) i = Some outp \<and>
   set (out_connections (SgInput_makeConnection i outp s) outp) = insert i (set (out_connections s outp)) \<and>
   (\<forall>o'. o' \<noteq> outp \<longrightarrow> out_connections (SgInput_makeConnection i outp s) o' = out_connections s o')"
proof (induction ops arbitrary: s)
  case Nil
  then show ?case by (simp add: SgInput_makeConnection_def)
next
  case (Cons x xs)
  from Cons.prems have "I1 (apply_conn_op s x)" and "ops_fresh (apply_conn_op s x) xs"
    by (simp_all add: I1_apply_conn_op)
  from Cons.IH [OF this] show ?case
    by (simp add: SgInput_makeConnection_def)
qed

theorem connection_symmetry_preserved_witness:
  "I1 empty_state \<and>
   ops_fresh empty_state [InputConnect (Port 2 0) (Port 1 0), InputDisconnect (Port 2 0),
      OutputConnect (Port 3 0) (Port 2 0), OutputDisconnectAll (Port 3 0)] \<and>
   I1 (foldl apply_conn_op empty_state [InputConnect (Port 2 0) (Port 1 0), InputDisconnect (Port 2 0),
      OutputConnect (Port 3 0) (Port 2 0), OutputDisconnectAll (Port 3 0)])"
proof -
  have f: "ops_fresh empty_state [InputConnect (Port 2 0) (Port 1 0), InputDisconnect (Port 2 0),
      OutputConnect (Port 3 0) (Port 2 0), OutputDisconnectAll (Port 3 0)]"
    by (simp add: empty_state_def SgInput_makeConnection_def SgInput_breakConnection_def
          SgOutput_makeConnection_def SgOutput_breakConnection_def)
  from connection_symmetry_preserved [OF I1_empty_state f] I1_empty_state f
  show ?thesis by simp
qed

text \<open>
  The claim as the spec words it fails: an input connected to output \<open>Port 1 0\<close> and then
  to output \<open>Port 3 0\<close> stays in the set of \<open>Port 1 0\<close>, which it no longer names as its
  connection.
\<close>

theorem connection_symmetry_counterexample:
  "I1 empty_state \<and>
   \<not> I1 (foldl apply_conn_op empty_state [InputConnect (Port 2 0) (Port 1 0), InputConnect (Port 2 0) (Port 3 0)]) \<and>
   (Port 2 0) \<in> set (out_connections
      (foldl apply_conn_op empty_state [InputConnect (Port 2 0) (Port 1 0), InputConnect (Port 2 0) (Port 3 0)]) (Port 1 0))"
proof -
  let ?s = "foldl apply_conn_op empty_state [InputConnect (Port 2 0) (Port 1 0), InputConnect (Port 2 0) (Port 3 0)]"
  have a: "in_connection ?s (Port 2 0) = Some (Port 3 0)"
    by (simp add: empty_state_def SgInput_makeConnection_def)
  have b: "(Port 2 0) \<in> set (out_connections ?s (Port 1 0))"
    by (simp add: empty_state_def SgInput_makeConnection_def)
  have "\<not> I1 ?s"
  proof
    assume "I1 ?s"
    with b have "in_connection ?s (Port 2 0) = Some (Port 1 0)"
      unfolding I1_def by blast
    with a show False by simp
  qed
  with b I1_empty_state show ?thesis by blast
qed

section \<open>Bypass and the folding of conditionals\<close>

lemma foldl_reroute_in_connection:
  "in_connection (foldl (bypass_reroute output upstream) s ds) d =
     (if d \<in> set ds then Some upstream else in_connection s d)"
  by (induction ds arbitrary: s)
     (auto simp: bypass_reroute_def SgInput_makeConnection_def SgOutput_breakConnection1_def)

lemma foldl_reroute_in_value:
  "in_value (foldl (bypass_reroute output upstream) s ds) = in_value s"
  by (induction ds arbitrary: s)
     (auto simp: bypass_reroute_def SgInput_makeConnection_def SgOutput_breakConnection1_def)

lemma foldl_push_in_connection:
  "in_connection (foldl (bypass_push_value output input) s ds) d =
     (if d \<in> set ds then None else in_connection s d)"
  by (induction ds arbitrary: s)
     (auto simp: bypass_push_value_def Let_def SgOutput_breakConnection1_def)

lemma foldl_push_in_value:
  "in_value (foldl (bypass_push_value output input) s ds) d =
     (if d \<in> set ds then in_value s input else in_value s d)"
proof (induction ds arbitrary: s)
  case Nil
  show ?case by simp
next
  case (Cons x xs)
  let ?s1 = "bypass_push_value output input s x"
  have a: "in_value ?s1 input = in_value s input"
    by (simp add: bypass_push_value_def Let_def SgOutput_breakConnection1_def)
  have b: "in_value ?s1 e = (if e = x then in_value s input else in_value s e)" for e
    by (simp add: bypass_push_value_def Let_def SgOutput_breakConnection1_def)
  show ?case by (simp add: Cons.IH a b)
qed

lemma bypass_consumers:
  assumes "inputIndex < numInputs s node" "outputIndex < numOutputs s node"
  shows "\<exists>s'. bypass node inputIndex outputIndex s = Inr s' \<and>
     (\<forall>d. in_connection s' d =
        (if d \<in> set (out_connections s (Port node outputIndex))
         then in_connection s (Port node inputIndex) else in_connection s d)) \<and>
     (\<forall>d. in_value s' d =
        (if d \<in> set (out_connections s (Port node outputIndex)) \<and> in_connection s (Port node inputIndex) = None
         then in_value s (Port node inputIndex) else in_value s d))"
proof (cases "in_connection s (Port node inputIndex)")
  case None
  with assms show ?thesis
    by (simp add: bypass_def getInput_at_def getOutput_at_def foldl_push_in_connection foldl_push_in_value)
next
  case (Some u)
  with assms show ?thesis
    by (simp add: bypass_def getInput_at_def getOutput_at_def foldl_reroute_in_connection foldl_reroute_in_value)
qed

section \<open>Default geometry nodes and color transforms\<close>

lemma addInput_frame:
  "addInput n name type s = Inr (p, s') \<Longrightarrow>
   nodeMap s' = nodeMap s \<and> nodeOrder s' = nodeOrder s \<and> numOutputs s' = numOutputs s"
  by (auto simp: addInput_def Let_def split: if_splits)

lemma addOutput_frame:
  "addOutput n name type s = Inr (p, s') \<Longrightarrow>
   nodeMap s' = nodeMap s \<and> nodeOrder s' = nodeOrder s \<and> numOutputs s' n = Suc (numOutputs s n)"
  by (auto simp: addOutput_def Let_def split: if_splits)

lemma create_interface_frame:
  "create_interface n gc elems s = Inr s' \<Longrightarrow>
   nodeMap s' = nodeMap s \<and> nodeOrder s' = nodeOrder s \<and> numOutputs s n \<le> numOutputs s' n"
proof (induction elems arbitrary: s)
  case Nil
  then show ?case by simp
next
  case (Cons elem elems)
  show ?case
  proof (cases "ve_isOutput elem")
    case True
    with Cons.prems obtain p s1 where a: "addOutput n (ve_name elem) (ve_type elem) s = Inr (p, s1)"
      and b: "create_interface n gc elems s1 = Inr s'"
      by (auto split: sum.splits)
    from addOutput_frame [OF a] Cons.IH [OF b] show ?thesis by simp
  next
    case False
    with Cons.prems obtain p s1 s3 where a: "addInput n (ve_name elem) (ve_type elem) s = Inr (p, s1)"
      and b: "create_interface n gc elems s3 = Inr s'"
      and c: "nodeMap s3 = nodeMap s1 \<and> nodeOrder s3 = nodeOrder s1 \<and> numOutputs s3 = numOutputs s1"
      by (auto simp: Let_def split: sum.splits if_splits)
    from addInput_frame [OF a] Cons.IH [OF b] c show ?thesis by simp
  qed
qed

lemma assign_instance_values_frame:
  "nodeMap (assign_instance_values n elems s) = nodeMap s \<and>
   nodeOrder (assign_instance_values n elems s) = nodeOrder s \<and>
   numOutputs (assign_instance_values n elems s) = numOutputs s"
  by (induction elems arbitrary: s) (auto split: option.splits)

lemma map_sum_snd_Inr: "map_sum id snd x = Inr b \<longleftrightarrow> (\<exists>a. x = Inr (a, b))"
  by (cases x) auto

lemma default_output_frame:
  assumes "(if numOutputs s n = 0 then map_sum id snd (addOutput n name type s) else Inr s) = Inr s'"
  shows "nodeMap s' = nodeMap s \<and> nodeOrder s' = nodeOrder s \<and> 0 < numOutputs s' n"
proof (cases "numOutputs s n = 0")
  case True
  with assms obtain p where "addOutput n name type s = Inr (p, s')"
    by (auto simp: map_sum_snd_Inr)
  from addOutput_frame [OF this] show ?thesis by simp
next
  case False
  with assms show ?thesis by simp
qed

lemma SgNode_create_frame:
  assumes "SgNode_create shadergen name nodeDef inst s = Inr (n, s')"
  shows "nodeMap s' = nodeMap s \<and> nodeOrder s' = nodeOrder s \<and> 0 < numOutputs s' n"
proof -
  from assms obtain impl where impl: "shadergen nodeDef = Some impl"
    by (auto simp: SgNode_create_def new_node_def Let_def split: option.splits)
  define s2 where "s2 = (snd (new_node name s))\<lparr>nd_impl := (nd_impl (snd (new_node name s)))(next_node s := Some impl),
      samplingInput := (samplingInput (snd (new_node name s)))(next_node s := None)\<rparr>"
  have n: "n = next_node s"
    using assms impl by (auto simp: SgNode_create_def new_node_def Let_def split: sum.splits)
  have f2: "nodeMap s2 = nodeMap s \<and> nodeOrder s2 = nodeOrder s"
    by (simp add: s2_def new_node_def)
  from assms impl obtain s3 s4 where
    s3: "create_interface n (group_classification (ndf_nodeGroup nodeDef)) (ndf_children nodeDef) s2 = Inr s3"
    and s4: "(if numOutputs s3 n = 0 then map_sum id snd (addOutput n ''out'' (ndf_type nodeDef) s3) else Inr s3) = Inr s4"
    and s': "s' = (case inst of None \<Rightarrow> s4 | Some elems \<Rightarrow> assign_instance_values n elems s4)
        \<lparr>nd_classification := (nd_classification (case inst of None \<Rightarrow> s4 | Some elems \<Rightarrow> assign_instance_values n elems s4))
          (n := classify (out_type (case inst of None \<Rightarrow> s4 | Some elems \<Rightarrow> assign_instance_values n elems s4) (Port n 0)) nodeDef
                  \<union> group_classification (ndf_nodeGroup nodeDef))\<rparr>"
    unfolding SgNode_create_def s2_def new_node_def Let_def n
    by (simp split: sum.splits)
  from s' have "nodeMap s' = nodeMap s4 \<and> nodeOrder s' = nodeOrder s4 \<and> numOutputs s' = numOutputs s4"
    by (cases inst) (simp_all add: assign_instance_values_frame)
  with default_output_frame [OF s4] create_interface_frame [OF s3] f2 show ?thesis by simp
qed

lemma set_hint_frame:
  "nodeMap (set_hint n a h s) = nodeMap s \<and> nodeOrder (set_hint n a h s) = nodeOrder s \<and>
   numOutputs (set_hint n a h s) = numOutputs s"
  by (auto simp: set_hint_def split: option.splits)

text \<open>
  Claim C10. When the document has no node definition named
  \<open>ND_<colorTransform>_<outputType>\<close> for the type of the driven output,
  \<open>addColorTransformNode\<close> returns without an error and leaves the graph as it was: no
  node is added and no connection changes. \<open>addDefaultGeomNode\<close>, which has to create
  its node, raises \<open>NodeDefNotFound\<close> when its node definition is missing.
\<close>

theorem color_transform_missing_nodedef:
  "doc (''ND_'' @ colorTransform @ ''_'' @ out_type s output) = None \<Longrightarrow>
   addColorTransformNode doc shadergen output colorTransform s = Inr s \<and>
   (getNode s (''default_'' @ gp_name geomprop) = None \<and>
    doc (''ND_'' @ gp_name geomprop @ ''_'' @ in_type s input) = None \<longrightarrow>
    addDefaultGeomNode doc shadergen input geomprop s = Inl NodeDefNotFound)"
  by (simp add: addColorTransformNode_def addDefaultGeomNode_def)

theorem color_transform_missing_nodedef_witness:
  "example_doc (''ND_'' @ ''srgb_linear'' @ ''_'' @ out_type image_graph (Port 1 0)) = None \<and>
   addColorTransformNode example_doc example_generator (Port 1 0) ''srgb_linear'' image_graph = Inr image_graph"
proof -
  have "example_doc (''ND_'' @ ''srgb_linear'' @ ''_'' @ out_type image_graph (Port 1 0)) = None"
    by (simp add: example_doc_def image_graph_def)
  with color_transform_missing_nodedef [of example_doc "''srgb_linear''" image_graph "Port 1 0" example_generator]
  show ?thesis by simp
qed

text \<open>
  Claim C9. After \<open>addDefaultGeomNode\<close> has returned for an input and a geomprop, the graph
  has a node named \<open>default_<geompropName>\<close> whose output 0 drives the input; the call
  appended that node to the node order exactly when no node of that name existed. A
  further call for any input and a geomprop of the same name connects that input to the
  same output and creates nothing: the node map and the node order stay as they are, and
  both inputs share the one upstream output.
\<close>

theorem default_geom_node_shared:
  assumes first: "addDefaultGeomNode doc shadergen i1 g1 s = Inr s1"
    and same: "gp_name g2 = gp_name g1"
  shows "\<exists>node. getNode s1 (''default_'' @ gp_name g1) = Some node \<and>
     in_connection s1 i1 = Some (Port node 0) \<and>
     nodeOrder s1 = (if getNode s (''default_'' @ gp_name g1) = None then nodeOrder s @ [node] else nodeOrder s) \<and>
     addDefaultGeomNode doc shadergen i2 g2 s1 = Inr (SgInput_makeConnection i2 (Port node 0) s1) \<and>
     nodeMap (SgInput_makeConnection i2 (Port node 0) s1) = nodeMap s1 \<and>
     nodeOrder (SgInput_makeConnection i2 (Port node 0) s1) = nodeOrder s1 \<and>
     in_connection (SgInput_makeConnection i2 (Port node 0) s1) i2 = Some (Port node 0) \<and>
     in_connection (SgInput_makeConnection i2 (Port node 0) s1) i1 = Some (Port node 0)"
proof -
  let ?name = "''default_'' @ gp_name g1"
  have "\<exists>node. getNode s1 ?name = Some node \<and> in_connection s1 i1 = Some (Port node 0) \<and>
     0 < numOutputs s1 node \<and>
     nodeOrder s1 = (if getNode s ?name = None then nodeOrder s @ [node] else nodeOrder s)"
  proof (cases "getNode s ?name")
    case (Some n)
    with first have "0 < numOutputs s n" and "s1 = SgInput_makeConnection i1 (Port n 0) s"
      by (auto simp: addDefaultGeomNode_def getOutput_at_def split: if_splits)
    with Some show ?thesis
      by (auto simp: SgInput_makeConnection_def getNode_def)
  next
    case None
    with first obtain nodeDef n c1 where
      c: "SgNode_create shadergen ?name nodeDef None s = Inr (n, c1)"
      and r: "s1 = SgInput_makeConnection i1 (Port n 0)
           (set_hint n ''attrname'' (gp_attrname g1) (set_hint n ''index'' (gp_index g1)
             (set_hint n ''space'' (gp_space g1)
               (c1\<lparr>nodeMap := AList.update ?name n (nodeMap c1), nodeOrder := nodeOrder c1 @ [n]\<rparr>))))"
      by (auto simp: addDefaultGeomNode_def getOutput_at_def Let_def
            split: option.splits sum.splits if_splits)
    from r have m: "nodeMap s1 = AList.update ?name n (nodeMap c1)"
        and o: "nodeOrder s1 = nodeOrder c1 @ [n]" and k: "numOutputs s1 = numOutputs c1"
      by (simp_all add: SgInput_makeConnection_def set_hint_frame)
    from m have "getNode s1 ?name = Some n"
      by (simp add: getNode_def update_conv')
    with r o k SgNode_create_frame [OF c] None show ?thesis
      by (simp add: SgInput_makeConnection_def)
  qed
  then obtain node where node: "getNode s1 ?name = Some node"
    and a: "in_connection s1 i1 = Some (Port node 0)" "0 < numOutputs s1 node"
      "nodeOrder s1 = (if getNode s ?name = None then nodeOrder s @ [node] else nodeOrder s)"
    by blast
  from a node same have b: "addDefaultGeomNode doc shadergen i2 g2 s1 = Inr (SgInput_makeConnection i2 (Port node 0) s1)"
    by (simp add: addDefaultGeomNode_def getOutput_at_def)
  from a have "in_connection (SgInput_makeConnection i2 (Port node 0) s1) i2 = Some (Port node 0) \<and>
      in_connection (SgInput_makeConnection i2 (Port node 0) s1) i1 = Some (Port node 0)"
    by (simp add: SgInput_makeConnection_def)
  with a b node show ?thesis
    by (simp add: SgInput_makeConnection_def)
qed

lemma image_graph_first:
  "\<exists>s1. addDefaultGeomNode example_doc example_generator (Port 1 0) texcoord_prop image_graph = Inr s1 \<and>
     getNode s1 (''default_'' @ gp_name texcoord_prop) = Some 3"
  by (simp add: addDefaultGeomNode_def image_graph_def example_doc_def example_generator_def
        texcoord_prop_def getNode_def SgNode_create_def new_node_def group_classification_def
        addInput_def addOutput_def getInput_named_def getOutput_named_def Let_def
        set_hint_def getOutput_at_def SgInput_makeConnection_def empty_scope_def)


theorem default_geom_node_shared_witness:
  "\<exists>s1. addDefaultGeomNode example_doc example_generator (Port 1 0) texcoord_prop image_graph = Inr s1 \<and>
     nodeOrder s1 = [1, 2, 3] \<and>
     addDefaultGeomNode example_doc example_generator (Port 2 0) texcoord_prop s1 =
       Inr (SgInput_makeConnection (Port 2 0) (Port 3 0) s1) \<and>
     in_connection (SgInput_makeConnection (Port 2 0) (Port 3 0) s1) (Port 2 0) = Some (Port 3 0) \<and>
     in_connection (SgInput_makeConnection (Port 2 0) (Port 3 0) s1) (Port 1 0) = Some (Port 3 0)"
proof -
  from image_graph_first obtain s1 where
    first: "addDefaultGeomNode example_doc example_generator (Port 1 0) texcoord_prop image_graph = Inr s1"
    and node: "getNode s1 (''default_'' @ gp_name texcoord_prop) = Some 3"
    by blast
  have none: "getNode image_graph (''default_'' @ gp_name texcoord_prop) = None"
    by (simp add: getNode_def image_graph_def texcoord_prop_def)
  have order: "nodeOrder image_graph = [1, 2]"
    by (simp add: image_graph_def)
  from default_geom_node_shared [OF first refl, of "Port 2 0"] node none order first
  show ?thesis by auto
qed

section \<open>Scopes\<close>

lemma same_graph_refl: "same_graph s s"
  by (simp add: same_graph_def)

lemma merge_scope_GLOBAL: "sc_type sc = GLOBAL \<Longrightarrow> sc_type (merge_scope f sc) = GLOBAL"
  by (simp add: merge_scope_def)

lemma merge_single_branch:
  "sc = single_branch_scope c \<or> sc_type sc = UNKNOWN \<Longrightarrow>
   merge_scope (single_branch_scope c) sc = single_branch_scope c"
  by (auto simp: merge_scope_def single_branch_scope_def)

lemma adjust_GLOBAL_branch2:
  "sc_type sc = GLOBAL \<Longrightarrow> adjustAtConditionalInput c 2 0x12 sc = single_branch_scope c"
  by (simp add: adjustAtConditionalInput_def single_branch_scope_def)

text \<open>What one input, one node and a run of nodes change.\<close>

lemma scope_input_frame:
  "same_graph s (fst su) \<Longrightarrow> same_graph s (fst (scope_input n su k))"
  by (cases su) (auto simp: scope_input_def same_graph_def split: option.splits)

lemma scope_inputs_frame:
  "same_graph s (fst su) \<Longrightarrow> same_graph s (fst (foldl (scope_input n) su ks))"
  by (induction ks arbitrary: su) (simp_all add: scope_input_frame)

lemma scope_input_used:
  "same_graph s (fst su) \<Longrightarrow>
   snd (scope_input n su k) =
     snd su \<union> {m. \<exists>c. in_connection s (Port n k) = Some c \<and> port_node c = m}"
  by (cases su) (auto simp: scope_input_def same_graph_def split: option.splits)

lemma scope_inputs_used:
  "same_graph s (fst su) \<Longrightarrow>
   snd (foldl (scope_input n) su ks) =
     snd su \<union> {m. \<exists>k\<in>set ks. \<exists>c. in_connection s (Port n k) = Some c \<and> port_node c = m}"
proof (induction ks arbitrary: su)
  case Nil
  then show ?case by simp
next
  case (Cons k ks)
  from Cons.prems have f: "same_graph s (fst (scope_input n su k))"
    by (rule scope_input_frame)
  show ?case
    using Cons.IH [OF f] scope_input_used [OF Cons.prems, of n k] by auto
qed

lemma scope_input_other:
  "same_graph s (fst su) \<Longrightarrow> \<forall>c. in_connection s (Port n k) = Some c \<longrightarrow> port_node c \<noteq> x \<Longrightarrow>
   scopeInfo (fst (scope_input n su k)) x = scopeInfo (fst su) x"
  by (cases su) (auto simp: scope_input_def same_graph_def split: option.splits)

lemma scope_inputs_other:
  "same_graph s (fst su) \<Longrightarrow> \<forall>k\<in>set ks. \<forall>c. in_connection s (Port n k) = Some c \<longrightarrow> port_node c \<noteq> x \<Longrightarrow>
   scopeInfo (fst (foldl (scope_input n) su ks)) x = scopeInfo (fst su) x"
proof (induction ks arbitrary: su)
  case Nil
  then show ?case by simp
next
  case (Cons k ks)
  from Cons.prems(1) have f: "same_graph s (fst (scope_input n su k))"
    by (rule scope_input_frame)
  from Cons.prems(2) have a: "\<forall>c. in_connection s (Port n k) = Some c \<longrightarrow> port_node c \<noteq> x" by simp
  have "scopeInfo (fst (scope_input n su k)) x = scopeInfo (fst su) x"
    by (rule scope_input_other [OF Cons.prems(1) a])
  with Cons.IH [OF f] Cons.prems(2) show ?case by simp
qed

lemma scope_node_frame:
  "same_graph s (fst su) \<Longrightarrow> same_graph s (fst (scope_node su n))"
  by (simp add: scope_node_def scope_inputs_frame)

lemma scope_node_used:
  assumes "same_graph s (fst su)"
  shows "snd (scope_node su n) = (if n \<in> snd su then snd su \<union> {m. drives s m n} else snd su)"
proof -
  from assms have "numInputs (fst su) n = numInputs s n"
    by (simp add: same_graph_def)
  with scope_inputs_used [OF assms, of n "[0..<numInputs s n]"] show ?thesis
    by (auto simp: scope_node_def drives_def)
qed

lemma scope_node_other:
  assumes "same_graph s (fst su)" "\<not> drives s x n"
  shows "scopeInfo (fst (scope_node su n)) x = scopeInfo (fst su) x"
proof -
  from assms have "numInputs (fst su) n = numInputs s n"
    by (simp add: same_graph_def)
  with assms scope_inputs_other [OF assms(1), of "[0..<numInputs s n]" n x] show ?thesis
    by (auto simp: scope_node_def drives_def)
qed

lemma scope_nodes_frame:
  "same_graph s (fst su) \<Longrightarrow> same_graph s (fst (foldl scope_node su l))"
  by (induction l arbitrary: su) (simp_all add: scope_node_frame)

lemma scope_nodes_other:
  "same_graph s (fst su) \<Longrightarrow> \<forall>n\<in>set l. \<not> drives s x n \<Longrightarrow>
   scopeInfo (fst (foldl scope_node su l)) x = scopeInfo (fst su) x"
proof (induction l arbitrary: su)
  case Nil
  then show ?case by simp
next
  case (Cons n l)
  from Cons.prems(2) have a: "\<not> drives s x n" by simp
  have "scopeInfo (fst (scope_node su n)) x = scopeInfo (fst su) x"
    by (rule scope_node_other [OF Cons.prems(1) a])
  with Cons.IH [OF scope_node_frame [OF Cons.prems(1)]] Cons.prems(2) show ?case by simp
qed

text \<open>A scope of type \<open>GLOBAL\<close> stays of type \<open>GLOBAL\<close>.\<close>

lemma scope_input_GLOBAL:
  "sc_type (scopeInfo (fst su) x) = GLOBAL \<Longrightarrow> sc_type (scopeInfo (fst (scope_input n su k)) x) = GLOBAL"
  by (cases su) (auto simp: scope_input_def merge_scope_GLOBAL split: option.splits)

lemma scope_inputs_GLOBAL:
  "sc_type (scopeInfo (fst su) x) = GLOBAL \<Longrightarrow>
   sc_type (scopeInfo (fst (foldl (scope_input n) su ks)) x) = GLOBAL"
  by (induction ks arbitrary: su) (simp_all add: scope_input_GLOBAL)

lemma scope_node_GLOBAL:
  "sc_type (scopeInfo (fst su) x) = GLOBAL \<Longrightarrow> sc_type (scopeInfo (fst (scope_node su n)) x) = GLOBAL"
  by (simp add: scope_node_def scope_inputs_GLOBAL)

lemma scope_nodes_GLOBAL:
  "sc_type (scopeInfo (fst su) x) = GLOBAL \<Longrightarrow>
   sc_type (scopeInfo (fst (foldl scope_node su l)) x) = GLOBAL"
  by (induction l arbitrary: su) (simp_all add: scope_node_GLOBAL)

lemma last_node_GLOBAL:
  "nodeOrder s \<noteq> [] \<Longrightarrow> sc_type (scopeInfo (calculateScopes s) (last (nodeOrder s))) = GLOBAL"
  by (simp add: calculateScopes_def scopes_pass_def scope_nodes_GLOBAL)


lemma branch_scope_single:
  assumes sg: "same_graph s s'"
    and inv: "\<forall>X\<in>S. scopeInfo s' X = single_branch_scope c \<or> (sc_type (scopeInfo s' X) = UNKNOWN \<and> X \<notin> used)"
    and n: "n \<in> used"
    and c: "hasClassification s c IFELSE"
    and g: "n = c \<longrightarrow> sc_type (scopeInfo s' c) = GLOBAL"
    and e: "(n = c \<and> k = 2) \<or>
        (n \<in> S \<and> \<not> hasClassification s n SWITCH \<and> \<not> (hasClassification s n IFELSE \<and> (k = 2 \<or> k = 3)))"
  shows "branch_scope s' n k = single_branch_scope c"
proof -
  from sg have h: "hasClassification s' = hasClassification s"
    by (auto simp: same_graph_def hasClassification_def fun_eq_iff)
  from e show ?thesis
  proof
    assume "n = c \<and> k = 2"
    with c g h show ?thesis
      by (simp add: branch_scope_def adjust_GLOBAL_branch2)
  next
    assume a: "n \<in> S \<and> \<not> hasClassification s n SWITCH \<and> \<not> (hasClassification s n IFELSE \<and> (k = 2 \<or> k = 3))"
    with inv n have "scopeInfo s' n = single_branch_scope c" by auto
    with a h show ?thesis
      by (auto simp: branch_scope_def)
  qed
qed

lemma scope_input_inv:
  assumes inv: "scope_inv s c S su visited"
    and n: "n \<in> snd su" "n \<in> set (nodeOrder s)" "k < numInputs s n"
    and excl: "only_through_branch2 s c S"
    and c: "c \<notin> S" "hasClassification s c IFELSE"
    and g: "n = c \<longrightarrow> sc_type (scopeInfo (fst su) c) = GLOBAL"
    and vis: "\<forall>m\<in>visited. \<not> drives s m n"
  shows "scope_inv s c S (scope_input n su k) visited"
proof (cases "in_connection s (Port n k)")
  case None
  with inv have "scope_input n su k = su"
    by (cases su) (simp add: scope_input_def scope_inv_def same_graph_def)
  with inv show ?thesis by simp
next
  case (Some u)
  obtain s' used where su: "su = (s', used)" by (cases su)
  from inv su have sg: "same_graph s s'"
    and K: "\<forall>x. sc_type (scopeInfo s' x) \<noteq> UNKNOWN \<longrightarrow> x \<in> used"
    and Q: "\<forall>X\<in>S. scopeInfo s' X = single_branch_scope c \<or> (sc_type (scopeInfo s' X) = UNKNOWN \<and> X \<notin> used)"
    and F: "\<forall>x\<in>visited. x \<in> used \<longrightarrow> (\<forall>m. drives s m x \<longrightarrow> m \<in> used)"
    by (simp_all add: scope_inv_def)
  from sg Some have conn: "in_connection s' (Port n k) = Some u"
    by (simp add: same_graph_def)
  let ?U = "port_node u"
  let ?s'' = "s'\<lparr>scopeInfo := (scopeInfo s')(?U := merge_scope (branch_scope s' n k) (scopeInfo s' ?U))\<rparr>"
  from conn su have res: "scope_input n su k = (?s'', insert ?U used)"
    by (simp add: scope_input_def)
  from sg have sg'': "same_graph s ?s''"
    by (simp add: same_graph_def)
  have K'': "\<forall>x. sc_type (scopeInfo ?s'' x) \<noteq> UNKNOWN \<longrightarrow> x \<in> insert ?U used"
    using K by simp
  have Q'': "\<forall>X\<in>S. scopeInfo ?s'' X = single_branch_scope c \<or>
      (sc_type (scopeInfo ?s'' X) = UNKNOWN \<and> X \<notin> insert ?U used)"
  proof
    fix X assume X: "X \<in> S"
    show "scopeInfo ?s'' X = single_branch_scope c \<or>
      (sc_type (scopeInfo ?s'' X) = UNKNOWN \<and> X \<notin> insert ?U used)"
    proof (cases "X = ?U")
      case False
      with Q X show ?thesis by simp
    next
      case True
      with X excl n(2,3) Some have e: "(n = c \<and> k = 2) \<or>
        (n \<in> S \<and> \<not> hasClassification s n SWITCH \<and> \<not> (hasClassification s n IFELSE \<and> (k = 2 \<or> k = 3)))"
        unfolding only_through_branch2_def by blast
      from n(1) su have nu: "n \<in> used" by simp
      from g su have g': "n = c \<longrightarrow> sc_type (scopeInfo s' c) = GLOBAL" by simp
      from branch_scope_single [OF sg Q nu c(2) g' e]
      have b: "branch_scope s' n k = single_branch_scope c" .
      from Q X True have "scopeInfo s' ?U = single_branch_scope c \<or> sc_type (scopeInfo s' ?U) = UNKNOWN"
        by auto
      from merge_single_branch [OF this] b True show ?thesis by simp
    qed
  qed
  have F'': "\<forall>x\<in>visited. x \<in> insert ?U used \<longrightarrow> (\<forall>m. drives s m x \<longrightarrow> m \<in> insert ?U used)"
  proof (intro ballI impI allI)
    fix x m assume x: "x \<in> visited" "x \<in> insert ?U used" and m: "drives s m x"
    from vis x(1) have "\<not> drives s x n" by simp
    with Some n(3) have "x \<noteq> ?U" by (auto simp: drives_def)
    with x(2) have "x \<in> used" by simp
    with F x(1) m show "m \<in> insert ?U used" by simp
  qed
  from sg'' K'' Q'' F'' res show ?thesis
    by (simp add: scope_inv_def)
qed

lemma scope_inputs_inv:
  assumes n: "n \<in> set (nodeOrder s)"
    and excl: "only_through_branch2 s c S"
    and c: "c \<notin> S" "hasClassification s c IFELSE"
    and vis: "\<forall>m\<in>visited. \<not> drives s m n"
  shows "scope_inv s c S su visited \<Longrightarrow> n \<in> snd su \<Longrightarrow>
    (n = c \<longrightarrow> sc_type (scopeInfo (fst su) c) = GLOBAL) \<Longrightarrow> \<forall>k\<in>set ks. k < numInputs s n \<Longrightarrow>
    scope_inv s c S (foldl (scope_input n) su ks) visited"
proof (induction ks arbitrary: su)
  case Nil
  then show ?case by simp
next
  case (Cons k ks)
  from Cons.prems(4) have k: "k < numInputs s n" by simp
  have i: "scope_inv s c S (scope_input n su k) visited"
    by (rule scope_input_inv [OF Cons.prems(1) Cons.prems(2) n k excl c Cons.prems(3) vis])
  from Cons.prems(1) have sg: "same_graph s (fst su)" by (simp add: scope_inv_def)
  from Cons.prems(2) scope_input_used [OF sg, of n k] have u: "n \<in> snd (scope_input n su k)"
    by simp
  from Cons.prems(3) have g: "n = c \<longrightarrow> sc_type (scopeInfo (fst (scope_input n su k)) c) = GLOBAL"
    by (simp add: scope_input_GLOBAL)
  from Cons.prems(4) have ks: "\<forall>k\<in>set ks. k < numInputs s n" by simp
  from Cons.IH [OF i u g ks] show ?case by simp
qed

lemma scope_node_inv:
  assumes inv: "scope_inv s c S su visited"
    and n: "n \<in> set (nodeOrder s)"
    and excl: "only_through_branch2 s c S"
    and c: "c \<notin> S" "hasClassification s c IFELSE"
    and g: "n = c \<longrightarrow> n \<in> snd su \<longrightarrow> sc_type (scopeInfo (fst su) c) = GLOBAL"
    and vis: "\<forall>m\<in>insert n visited. \<not> drives s m n"
  shows "scope_inv s c S (scope_node su n) (insert n visited)"
proof -
  from inv have sg: "same_graph s (fst su)" by (simp add: scope_inv_def)
  then have ni: "numInputs (fst su) n = numInputs s n" by (simp add: same_graph_def)
  from vis have vis': "\<forall>m\<in>visited. \<not> drives s m n" and self: "\<not> drives s n n" by simp_all
  have a: "scope_inv s c S (scope_node su n) visited"
  proof (cases "n \<in> snd su")
    case False
    with inv show ?thesis by (simp add: scope_node_def)
  next
    case True
    with g have g': "n = c \<longrightarrow> sc_type (scopeInfo (fst su) c) = GLOBAL" by blast
    have "\<forall>k\<in>set [0..<numInputs s n]. k < numInputs s n" by simp
    from scope_inputs_inv [OF n excl c vis' inv True g' this] True ni show ?thesis
      by (simp add: scope_node_def)
  qed
  have u: "snd (scope_node su n) = (if n \<in> snd su then snd su \<union> {m. drives s m n} else snd su)"
    by (rule scope_node_used [OF sg])
  have b: "n \<in> snd (scope_node su n) \<longrightarrow> (\<forall>m. drives s m n \<longrightarrow> m \<in> snd (scope_node su n))"
    unfolding u using self by auto
  from a have a1: "same_graph s (fst (scope_node su n))"
    and a2: "\<forall>x. sc_type (scopeInfo (fst (scope_node su n)) x) \<noteq> UNKNOWN \<longrightarrow> x \<in> snd (scope_node su n)"
    and a3: "\<forall>X\<in>S. scopeInfo (fst (scope_node su n)) X = single_branch_scope c \<or>
              (sc_type (scopeInfo (fst (scope_node su n)) X) = UNKNOWN \<and> X \<notin> snd (scope_node su n))"
    and a4: "\<forall>x\<in>visited. x \<in> snd (scope_node su n) \<longrightarrow> (\<forall>m. drives s m x \<longrightarrow> m \<in> snd (scope_node su n))"
    unfolding scope_inv_def by blast+
  from a4 b have a5: "\<forall>x\<in>insert n visited. x \<in> snd (scope_node su n) \<longrightarrow> (\<forall>m. drives s m x \<longrightarrow> m \<in> snd (scope_node su n))"
    by blast
  show ?thesis
    unfolding scope_inv_def using a1 a2 a3 a5 by blast
qed


lemma scope_nodes_inv:
  assumes excl: "only_through_branch2 s c S"
    and c: "c \<notin> S" "hasClassification s c IFELSE"
  shows "scope_inv s c S su visited \<Longrightarrow> set l \<subseteq> set (nodeOrder s) \<Longrightarrow> c \<notin> set l \<Longrightarrow>
    sorted_wrt (\<lambda>x y. \<not> drives s x y) l \<Longrightarrow> \<forall>n\<in>set l. \<not> drives s n n \<Longrightarrow>
    \<forall>m\<in>visited. \<forall>n\<in>set l. \<not> drives s m n \<Longrightarrow>
    scope_inv s c S (foldl scope_node su l) (visited \<union> set l)"
proof (induction l arbitrary: su visited)
  case Nil
  then show ?case by simp
next
  case (Cons n l)
  from Cons.prems(2) have n: "n \<in> set (nodeOrder s)" by simp
  from Cons.prems(3) have g: "n = c \<longrightarrow> n \<in> snd su \<longrightarrow> sc_type (scopeInfo (fst su) c) = GLOBAL"
    by simp
  from Cons.prems(5,6) have vis: "\<forall>m\<in>insert n visited. \<not> drives s m n" by simp
  have i: "scope_inv s c S (scope_node su n) (insert n visited)"
    by (rule scope_node_inv [OF Cons.prems(1) n excl c g vis])
  from Cons.prems(2) have 2: "set l \<subseteq> set (nodeOrder s)" by simp
  from Cons.prems(3) have 3: "c \<notin> set l" by simp
  from Cons.prems(4) have 4: "sorted_wrt (\<lambda>x y. \<not> drives s x y) l" by simp
  from Cons.prems(5) have 5: "\<forall>n\<in>set l. \<not> drives s n n" by simp
  from Cons.prems(4,6) have 6: "\<forall>m\<in>insert n visited. \<forall>n\<in>set l. \<not> drives s m n" by simp
  from Cons.IH [OF i 2 3 4 5 6] show ?case by simp
qed

lemma scopes_pass_inv:
  assumes ne: "nodeOrder s \<noteq> []"
    and dist: "distinct (nodeOrder s)"
    and topo: "topological s (nodeOrder s)"
    and unknown: "\<forall>n. sc_type (scopeInfo s n) = UNKNOWN"
    and c: "c \<in> set (nodeOrder s)" "hasClassification s c IFELSE"
      "sc_type (scopeInfo (calculateScopes s) c) = GLOBAL"
    and S: "c \<notin> S" "last (nodeOrder s) \<notin> S"
    and excl: "only_through_branch2 s c S"
  shows "scope_inv s c S (scopes_pass s) (set (nodeOrder s))"
proof -
  let ?lst = "last (nodeOrder s)"
  let ?s0 = "s\<lparr>scopeInfo := (scopeInfo s)(?lst := (scopeInfo s ?lst)\<lparr>sc_type := GLOBAL\<rparr>)\<rparr>"
  let ?init = "(?s0, {?lst})"
  from c(1) have "c \<in> set (rev (nodeOrder s))" by simp
  then obtain l1 l2 where split: "rev (nodeOrder s) = l1 @ c # l2"
    by (auto dest: split_list)
  from dist have "distinct (rev (nodeOrder s))" by simp
  with split have cl: "c \<notin> set l1" "c \<notin> set l2" by auto
  from split have "set (rev (nodeOrder s)) = set (l1 @ c # l2)" by simp
  then have sets: "set (nodeOrder s) = insert c (set l1) \<union> set l2" by simp
  then have sub: "set l1 \<subseteq> set (nodeOrder s)" "set l2 \<subseteq> set (nodeOrder s)"
    by auto
  from topo have "sorted_wrt (\<lambda>x y. \<not> drives s x y) (rev (nodeOrder s))"
    and irr: "\<forall>n\<in>set (nodeOrder s). \<not> drives s n n"
    by (simp_all add: topological_def sorted_wrt_rev)
  with split have s1: "sorted_wrt (\<lambda>x y. \<not> drives s x y) l1"
    and s2: "sorted_wrt (\<lambda>x y. \<not> drives s x y) l2"
    and c2: "\<forall>y\<in>set l2. \<not> drives s c y"
    and l1c: "\<forall>x\<in>set l1. \<not> drives s x c"
    and l12: "\<forall>x\<in>set l1. \<forall>y\<in>set l2. \<not> drives s x y"
    by (auto simp: sorted_wrt_append)
  from irr sub c(1) have i1: "\<forall>n\<in>set l1. \<not> drives s n n" and i2: "\<forall>n\<in>set l2. \<not> drives s n n"
    and ic: "\<not> drives s c c"
    by auto
  have sg0: "same_graph s (fst ?init)" by (simp add: same_graph_def)
  have k0: "\<forall>n. sc_type (scopeInfo (fst ?init) n) \<noteq> UNKNOWN \<longrightarrow> n \<in> snd ?init"
    using unknown by simp
  have q0: "\<forall>X\<in>S. scopeInfo (fst ?init) X = single_branch_scope c \<or>
      (sc_type (scopeInfo (fst ?init) X) = UNKNOWN \<and> X \<notin> snd ?init)"
    using unknown S(2) by auto
  have f0: "\<forall>n\<in>{}. n \<in> snd ?init \<longrightarrow> (\<forall>m. drives s m n \<longrightarrow> m \<in> snd ?init)"
    by simp
  have inv0: "scope_inv s c S ?init {}"
    unfolding scope_inv_def using sg0 k0 q0 f0 by blast
  have "\<forall>m\<in>{}. \<forall>n\<in>set l1. \<not> drives s m n" by simp
  from scope_nodes_inv [OF excl S(1) c(2) inv0 sub(1) cl(1) s1 i1 this]
  have inv1: "scope_inv s c S (foldl scope_node ?init l1) (set l1)" by simp
  let ?su1 = "foldl scope_node ?init l1"
  from inv1 have sg1: "same_graph s (fst ?su1)" by (simp add: scope_inv_def)
  have pass: "scopes_pass s = foldl scope_node (scope_node ?su1 c) l2"
    by (simp add: scopes_pass_def split)
  have "\<forall>n\<in>set (c # l2). \<not> drives s c n" using ic c2 by simp
  from scope_nodes_other [OF sg1 this]
  have "scopeInfo (fst (foldl scope_node ?su1 (c # l2))) c = scopeInfo (fst ?su1) c" .
  with pass c(3) ne have g: "sc_type (scopeInfo (fst ?su1) c) = GLOBAL"
    by (simp add: calculateScopes_def)
  have vis: "\<forall>m\<in>insert c (set l1). \<not> drives s m c" using ic l1c by simp
  from g have g': "c = c \<longrightarrow> c \<in> snd ?su1 \<longrightarrow> sc_type (scopeInfo (fst ?su1) c) = GLOBAL" by simp
  have inv2: "scope_inv s c S (scope_node ?su1 c) (insert c (set l1))"
    by (rule scope_node_inv [OF inv1 c(1) excl S(1) c(2) g' vis])
  have "\<forall>m\<in>insert c (set l1). \<forall>n\<in>set l2. \<not> drives s m n" using c2 l12 by simp
  from scope_nodes_inv [OF excl S(1) c(2) inv2 sub(2) cl(2) s2 i2 this]
  have "scope_inv s c S (scopes_pass s) (insert c (set l1) \<union> set l2)"
    by (simp add: pass)
  with sets show ?thesis by simp
qed

text \<open>
  Claim C6, as the code has it. After \<open>calculateScopes\<close> on a graph with a non-empty node
  order, the last node of the order has scope \<open>GLOBAL\<close> (the node that feeds the primary
  output socket has it when it is that last node). When moreover the order is
  topological and without duplicates and every scope starts \<open>UNKNOWN\<close>, then for an
  if/else node \<open>c\<close> of the order whose scope after the pass is \<open>GLOBAL\<close>, every node that
  the visited nodes consume only through branch input 2 of \<open>c\<close> has the scope \<open>SINGLE\<close>
  with conditional \<open>c\<close>, branch mask \<open>1 << 2 = 4\<close> and full mask \<open>0x12\<close>.
\<close>

theorem scopes_of_last_node_and_branch2:
  "nodeOrder s \<noteq> [] \<Longrightarrow>
     sc_type (scopeInfo (calculateScopes s) (last (nodeOrder s))) = GLOBAL \<and>
     (distinct (nodeOrder s) \<and> topological s (nodeOrder s) \<and>
      (\<forall>n. sc_type (scopeInfo s n) = UNKNOWN) \<and>
      c \<in> set (nodeOrder s) \<and> hasClassification s c IFELSE \<and>
      sc_type (scopeInfo (calculateScopes s) c) = GLOBAL \<and>
      c \<notin> S \<and> last (nodeOrder s) \<notin> S \<and> only_through_branch2 s c S \<and>
      X \<in> branch2_cone s c S \<longrightarrow>
      scopeInfo (calculateScopes s) X = single_branch_scope c)"
proof (intro conjI impI)
  assume "nodeOrder s \<noteq> []"
  then show "sc_type (scopeInfo (calculateScopes s) (last (nodeOrder s))) = GLOBAL"
    by (rule last_node_GLOBAL)
next
  assume ne: "nodeOrder s \<noteq> []"
  assume h: "distinct (nodeOrder s) \<and> topological s (nodeOrder s) \<and>
      (\<forall>n. sc_type (scopeInfo s n) = UNKNOWN) \<and>
      c \<in> set (nodeOrder s) \<and> hasClassification s c IFELSE \<and>
      sc_type (scopeInfo (calculateScopes s) c) = GLOBAL \<and>
      c \<notin> S \<and> last (nodeOrder s) \<notin> S \<and> only_through_branch2 s c S \<and>
      X \<in> branch2_cone s c S"
  then have h1: "distinct (nodeOrder s)" and h2: "topological s (nodeOrder s)"
    and h3: "\<forall>n. sc_type (scopeInfo s n) = UNKNOWN"
    and h4: "c \<in> set (nodeOrder s)" "hasClassification s c IFELSE"
      "sc_type (scopeInfo (calculateScopes s) c) = GLOBAL"
    and h5: "c \<notin> S" "last (nodeOrder s) \<notin> S" and h6: "only_through_branch2 s c S"
    and h7: "X \<in> branch2_cone s c S"
    by blast+
  have inv: "scope_inv s c S (scopes_pass s) (set (nodeOrder s))"
    by (rule scopes_pass_inv [OF ne h1 h2 h3 h4 h5 h6])
  let ?f = "fst (scopes_pass s)" and ?u = "snd (scopes_pass s)"
  from ne have cs: "calculateScopes s = ?f" by (simp add: calculateScopes_def)
  from inv have K: "\<forall>n. sc_type (scopeInfo ?f n) \<noteq> UNKNOWN \<longrightarrow> n \<in> ?u"
    and Q: "\<forall>X\<in>S. scopeInfo ?f X = single_branch_scope c \<or> (sc_type (scopeInfo ?f X) = UNKNOWN \<and> X \<notin> ?u)"
    and F: "\<forall>n\<in>set (nodeOrder s). n \<in> ?u \<longrightarrow> (\<forall>m. drives s m n \<longrightarrow> m \<in> ?u)"
    unfolding scope_inv_def by blast+
  from h4(3) cs K have cu: "c \<in> ?u" by auto
  from h7 have "X \<in> ?u \<and> X \<in> S"
  proof (induction rule: branch2_cone.induct)
    case (base u)
    then have "drives s (port_node u) c" by (auto simp: drives_def)
    with F cu h4(1) base(3) show ?case by blast
  next
    case (step n k u)
    then have "drives s (port_node u) n" by (auto simp: drives_def)
    with F step(2,5,6) show ?case by blast
  qed
  with Q cs show "scopeInfo (calculateScopes s) X = single_branch_scope c" by auto
qed

lemma drives_iff:
  "drives s m n \<longleftrightarrow>
     (\<exists>k\<in>set [0..<numInputs s n]. \<exists>c. in_connection s (Port n k) = Some c \<and> port_node c = m)"
  by (auto simp: drives_def)

theorem scopes_of_last_node_and_branch2_witness:
  "scopeInfo (calculateScopes (ifelse_graph (1/5)\<lparr>nodeOrder := [1, 3, 4, 2]\<rparr>)) 3 = single_branch_scope 2 \<and>
   sc_type (scopeInfo (calculateScopes (ifelse_graph (1/5)\<lparr>nodeOrder := [1, 3, 4, 2]\<rparr>)) 2) = GLOBAL"
proof -
  let ?s = "ifelse_graph (1/5)\<lparr>nodeOrder := [1, 3, 4, 2]\<rparr>"
  have ne: "nodeOrder ?s \<noteq> []" by simp
  have l: "last (nodeOrder ?s) = 2" by simp
  have 1: "distinct (nodeOrder ?s)" by simp
  have d: "\<not> drives ?s m 1" "\<not> drives ?s m 3" "\<not> drives ?s m 4" "\<not> drives ?s 2 2" for m
    by (simp_all add: drives_iff ifelse_graph_def upt_rec)
  have 2: "topological ?s (nodeOrder ?s)"
    using d by (simp add: topological_def)
  have 3: "\<forall>n. sc_type (scopeInfo ?s n) = UNKNOWN"
    by (simp add: ifelse_graph_def empty_scope_def)
  have 4: "2 \<in> set (nodeOrder ?s)" "hasClassification ?s 2 IFELSE"
    by (simp_all add: ifelse_graph_def hasClassification_def)
  from last_node_GLOBAL [OF ne] l
  have 5: "sc_type (scopeInfo (calculateScopes ?s) 2) = GLOBAL" by simp
  have 6: "2 \<notin> {3::nat}" "last (nodeOrder ?s) \<notin> {3::nat}" by simp_all
  have 7: "only_through_branch2 ?s 2 {3}"
    unfolding only_through_branch2_def
  proof (intro ballI allI impI)
    fix n k u
    assume "in_connection ?s (Port n k) = Some u" and "port_node u \<in> {3}"
    then have "n = 2 \<and> k = 2"
      by (auto simp: ifelse_graph_def split: if_splits)
    then show "n = 2 \<and> k = 2 \<or>
        n \<in> {3} \<and> \<not> hasClassification ?s n SWITCH \<and>
        \<not> (hasClassification ?s n IFELSE \<and> (k = 2 \<or> k = 3))"
      by simp
  qed
  have "2 < numInputs ?s 2" "in_connection ?s (Port 2 2) = Some (Port 3 0)" "port_node (Port 3 0) \<in> {3::nat}"
    by (simp_all add: ifelse_graph_def)
  from branch2_cone.base [OF this] have 8: "3 \<in> branch2_cone ?s 2 {3}" by simp
  from scopes_of_last_node_and_branch2 [OF ne, of 2 "{3}" 3] 1 2 3 4 5 6 7 8
  show ?thesis by blast
qed

text \<open>
  The claim as the spec words it fails on the graph with two output sockets: the sort
  puts the if/else node last, and node 1, which feeds the primary output socket, ends
  with the scope \<open>SINGLE\<close> of branch 2 of the if/else node, not \<open>GLOBAL\<close>.
\<close>

theorem scope_of_output_node_counterexample:
  "in_connection two_output_graph (Port (this_graph two_output_graph) 0) = Some (Port 1 0) \<and>
   optimize 10 two_output_graph = Some (Inr two_output_graph) \<and>
   topologicalSort two_output_graph = Inr (two_output_graph\<lparr>nodeOrder := [1, 2]\<rparr>) \<and>
   scopeInfo (calculateScopes (two_output_graph\<lparr>nodeOrder := [1, 2]\<rparr>)) 1 = single_branch_scope 2 \<and>
   sc_type (scopeInfo (calculateScopes (two_output_graph\<lparr>nodeOrder := [1, 2]\<rparr>)) 1) \<noteq> GLOBAL"
proof -
  have a: "in_connection two_output_graph (Port (this_graph two_output_graph) 0) = Some (Port 1 0)"
    by (simp add: two_output_graph_def)
  have b: "optimize 10 two_output_graph = Some (Inr two_output_graph)"
    by (simp add: optimize_def two_output_graph_def optimize_node_def hasClassification_def
          getInput_named_def constant_driven_def)
  have c: "topologicalSort two_output_graph = Inr (two_output_graph\<lparr>nodeOrder := [1, 2]\<rparr>)"
    by (simp add: topologicalSort_def topo_order_def topo_init_def topo_enqueue_def in_degree_def
          two_output_graph_def topo_visit_def topo_decrement_def topo_loop.simps upt_rec)
  have d: "scopeInfo (calculateScopes (two_output_graph\<lparr>nodeOrder := [1, 2]\<rparr>)) 1 = single_branch_scope 2"
    by (simp add: calculateScopes_def scopes_pass_def scope_node_def scope_input_def branch_scope_def
          hasClassification_def two_output_graph_def adjustAtConditionalInput_def merge_scope_def
          empty_scope_def single_branch_scope_def upt_rec)
  from a b c d show ?thesis
    by (simp add: single_branch_scope_def)
qed

section \<open>The optimizer: constant nodes\<close>

subsection \<open>An edit keeps the nodes and the connection symmetry\<close>

lemma same_nodes_refl: "same_nodes s s"
  by (simp add: same_nodes_def)

lemma same_nodes_trans: "same_nodes s s' \<Longrightarrow> same_nodes s' s'' \<Longrightarrow> same_nodes s s''"
  by (simp add: same_nodes_def)

lemma bypass_reroute_same_nodes: "same_nodes s (bypass_reroute output upstream s d)"
  by (simp add: same_nodes_def bypass_reroute_def SgInput_makeConnection_def SgOutput_breakConnection1_def)

lemma bypass_push_value_same_nodes: "same_nodes s (bypass_push_value output input s d)"
  by (simp add: same_nodes_def bypass_push_value_def SgOutput_breakConnection1_def Let_def)

lemma foldl_same_nodes:
  "(\<And>s d. same_nodes s (f s d)) \<Longrightarrow> same_nodes s (foldl f s ds)"
proof (induction ds arbitrary: s)
  case Nil
  show ?case by (simp add: same_nodes_refl)
next
  case (Cons d ds)
  from Cons.prems have "same_nodes s (f s d)" .
  moreover from Cons.IH [OF Cons.prems] have "same_nodes (f s d) (foldl f (f s d) ds)" .
  ultimately show ?case
    using same_nodes_trans by simp
qed

lemma bypass_same_nodes: "bypass n b k s = Inr s' \<Longrightarrow> same_nodes s s'"
  by (auto simp: bypass_def foldl_same_nodes bypass_reroute_same_nodes bypass_push_value_same_nodes
      split: sum.splits option.splits)

lemma bypass_reroute_in_connection:
  "in_connection (bypass_reroute output upstream s d) j = (if j = d then Some upstream else in_connection s j)"
  by (simp add: bypass_reroute_def SgInput_makeConnection_def SgOutput_breakConnection1_def)

lemma I1_bypass_reroute:
  assumes s: "I1 s" and d: "in_connection s d = Some output \<or> in_connection s d = Some upstream"
  shows "I1 (bypass_reroute output upstream s d)"
proof (rule I1_I)
  fix j o'
  assume a: "in_connection (bypass_reroute output upstream s d) j = Some o'"
  show "j \<in> set (out_connections (bypass_reroute output upstream s d) o')"
  proof (cases "j = d")
    case True
    with a show ?thesis
      by (simp add: bypass_reroute_def SgInput_makeConnection_def SgOutput_breakConnection1_def)
  next
    case False
    with a have "in_connection s j = Some o'"
      by (simp add: bypass_reroute_def SgInput_makeConnection_def SgOutput_breakConnection1_def)
    from I1_D1 [OF s this] False show ?thesis
      by (auto simp: bypass_reroute_def SgInput_makeConnection_def SgOutput_breakConnection1_def)
  qed
next
  fix j o'
  assume a: "j \<in> set (out_connections (bypass_reroute output upstream s d) o')"
  show "in_connection (bypass_reroute output upstream s d) j = Some o'"
  proof (cases "j = d")
    case True
    have "o' = upstream"
    proof (rule ccontr)
      assume n: "o' \<noteq> upstream"
      with a True have "d \<in> set (out_connections s o')" "o' \<noteq> output"
        by (auto simp: bypass_reroute_def SgInput_makeConnection_def SgOutput_breakConnection1_def
            split: if_splits)
      with I1_D2 [OF s this(1)] d n show False by auto
    qed
    with True show ?thesis
      by (simp add: bypass_reroute_def SgInput_makeConnection_def SgOutput_breakConnection1_def)
  next
    case False
    with a have "j \<in> set (out_connections s o')"
      by (auto simp: bypass_reroute_def SgInput_makeConnection_def SgOutput_breakConnection1_def
          split: if_splits)
    from I1_D2 [OF s this] False show ?thesis
      by (simp add: bypass_reroute_in_connection)
  qed
qed

lemma I1_foldl_reroute:
  "I1 s \<Longrightarrow> \<forall>d\<in>set ds. in_connection s d = Some output \<or> in_connection s d = Some upstream \<Longrightarrow>
   I1 (foldl (bypass_reroute output upstream) s ds)"
proof (induction ds arbitrary: s)
  case Nil
  then show ?case by simp
next
  case (Cons d ds)
  from Cons.prems have 1: "I1 (bypass_reroute output upstream s d)"
    by (intro I1_bypass_reroute) simp_all
  from Cons.prems(2) have 2: "\<forall>e\<in>set ds. in_connection (bypass_reroute output upstream s d) e = Some output \<or>
      in_connection (bypass_reroute output upstream s d) e = Some upstream"
    by (simp add: bypass_reroute_in_connection)
  from Cons.IH [OF 1 2] show ?case by simp
qed

lemma I1_bypass_push_value:
  assumes s: "I1 s" and d: "in_connection s d = Some output \<or> in_connection s d = None"
  shows "I1 (bypass_push_value output input s d)"
proof (rule I1_I)
  fix j o'
  assume a: "in_connection (bypass_push_value output input s d) j = Some o'"
  then have "j \<noteq> d" "in_connection s j = Some o'"
    by (auto simp: bypass_push_value_def Let_def SgOutput_breakConnection1_def split: if_splits)
  with I1_D1 [OF s this(2)] show "j \<in> set (out_connections (bypass_push_value output input s d) o')"
    by (auto simp: bypass_push_value_def Let_def SgOutput_breakConnection1_def)
next
  fix j o'
  assume a: "j \<in> set (out_connections (bypass_push_value output input s d) o')"
  then have m: "j \<in> set (out_connections s o')" and n: "j \<noteq> d \<or> o' \<noteq> output"
    by (auto simp: bypass_push_value_def Let_def SgOutput_breakConnection1_def split: if_splits)
  from I1_D2 [OF s m] have c: "in_connection s j = Some o'" .
  with d n have "j \<noteq> d" by auto
  with c show "in_connection (bypass_push_value output input s d) j = Some o'"
    by (simp add: bypass_push_value_def Let_def SgOutput_breakConnection1_def)
qed

lemma bypass_push_value_in_connection:
  "in_connection (bypass_push_value output input s d) j = (if j = d then None else in_connection s j)"
  by (simp add: bypass_push_value_def Let_def SgOutput_breakConnection1_def)

lemma I1_foldl_push_value:
  "I1 s \<Longrightarrow> \<forall>d\<in>set ds. in_connection s d = Some output \<or> in_connection s d = None \<Longrightarrow>
   I1 (foldl (bypass_push_value output input) s ds)"
proof (induction ds arbitrary: s)
  case Nil
  then show ?case by simp
next
  case (Cons d ds)
  from Cons.prems have 1: "I1 (bypass_push_value output input s d)"
    by (intro I1_bypass_push_value) simp_all
  from Cons.prems(2) have 2: "\<forall>e\<in>set ds. in_connection (bypass_push_value output input s d) e = Some output \<or>
      in_connection (bypass_push_value output input s d) e = None"
    by (simp add: bypass_push_value_in_connection)
  from Cons.IH [OF 1 2] show ?case by simp
qed

lemma I1_bypass:
  assumes s: "I1 s" and b: "bypass n b k s = Inr s'"
  shows "I1 s'"
proof -
  have c: "\<forall>d\<in>set (out_connections s (Port n k)). in_connection s d = Some (Port n k)"
    using I1_D2 [OF s] by blast
  show ?thesis
  proof (cases "in_connection s (Port n b)")
    case None
    with b have "s' = foldl (bypass_push_value (Port n k) (Port n b)) s (out_connections s (Port n k))"
      by (auto simp: bypass_def getInput_at_def getOutput_at_def split: if_splits)
    with I1_foldl_push_value [OF s, of "out_connections s (Port n k)" "Port n k" "Port n b"] c
    show ?thesis by simp
  next
    case (Some u)
    with b have "s' = foldl (bypass_reroute (Port n k) u) s (out_connections s (Port n k))"
      by (auto simp: bypass_def getInput_at_def getOutput_at_def split: if_splits)
    with I1_foldl_reroute [OF s, of "out_connections s (Port n k)" "Port n k" u] c
    show ?thesis by simp
  qed
qed

lemma bypass_effect:
  assumes b: "bypass n b k s = Inr s'"
  shows "in_connection s' d =
        (if d \<in> set (out_connections s (Port n k)) then in_connection s (Port n b) else in_connection s d)"
    and "in_value s' d =
        (if d \<in> set (out_connections s (Port n k)) \<and> in_connection s (Port n b) = None
         then in_value s (Port n b) else in_value s d)"
proof -
  from b have "b < numInputs s n" "k < numOutputs s n"
    by (auto simp: bypass_def getInput_at_def getOutput_at_def split: if_splits)
  from bypass_consumers [OF this] b
  show "in_connection s' d =
        (if d \<in> set (out_connections s (Port n k)) then in_connection s (Port n b) else in_connection s d)"
    and "in_value s' d =
        (if d \<in> set (out_connections s (Port n k)) \<and> in_connection s (Port n b) = None
         then in_value s (Port n b) else in_value s d)"
    by auto
qed

lemma optimize_node_cases:
  assumes "optimize_node n s = Inr (s', e)"
  shows "(s' = s \<and> \<not> e) \<or> (e \<and> (\<exists>b. bypass n b 0 s = Inr s'))"
  using assms
  by (auto simp: optimize_node_def split: if_splits sum.splits option.splits)





lemma optimize_node_I1:
  assumes "I1 s" "optimize_node n s = Inr (s', e)"
  shows "I1 s' \<and> same_nodes s s'"
  using optimize_node_cases [OF assms(2)]
proof
  assume "s' = s \<and> \<not> e"
  with assms(1) show ?thesis by (simp add: same_nodes_refl)
next
  assume "e \<and> (\<exists>b. bypass n b 0 s = Inr s')"
  then obtain b where b: "bypass n b 0 s = Inr s'" by blast
  from I1_bypass [OF assms(1) b] bypass_same_nodes [OF b] show ?thesis by simp
qed



lemma leads_upstream_consumer: "leads_upstream s i = Some outp \<Longrightarrow> has_consumer s outp"
  by (auto simp: leads_upstream_def has_consumer_def split: option.splits if_splits)

lemma next_sibling_consumer:
  "next_sibling s n k = (k', Some (outp, i)) \<Longrightarrow> has_consumer s outp"
proof (induction s n k rule: next_sibling.induct)
  case (1 s node second)
  show ?case
  proof (cases "second + 1 < numInputs s node")
    case False
    with "1.prems" show ?thesis by (simp add: next_sibling.simps)
  next
    case True
    show ?thesis
    proof (cases "leads_upstream s (Port node (Suc second))")
      case None
      with True "1.prems" have "next_sibling s node (Suc second) = (k', Some (outp, i))"
        by (simp add: next_sibling.simps [of s node second])
      with "1.IH" True None show ?thesis by simp
    next
      case (Some u)
      with True "1.prems" have "u = outp"
        by (simp add: next_sibling.simps [of s node second])
      with Some show ?thesis by (simp add: leads_upstream_consumer)
    qed
  qed
qed

lemma extendPathUpstream_upstream:
  "extendPathUpstream outp i it = Inr it' \<Longrightarrow> it_upstream it' = Some outp"
  by (auto simp: extendPathUpstream_def split: if_splits)

lemma traverse_siblings_upstream:
  "traverse_siblings s st p = Inr it \<Longrightarrow> it_upstream it = Some u \<Longrightarrow> has_consumer s u"
proof (induction st arbitrary: p)
  case Nil
  then show ?case by (auto simp: NULL_EDGE_ITERATOR_def SgEdgeIterator_def)
next
  case (Cons fr st)
  obtain first second where fr: "fr = (first, second)" by (cases fr)
  obtain k' r where ns: "next_sibling s (port_node first) second = (k', r)"
    by (cases "next_sibling s (port_node first) second")
  show ?case
  proof (cases r)
    case None
    with Cons.prems fr ns have "traverse_siblings s st (p - {first}) = Inr it" by simp
    from Cons.IH [OF this Cons.prems(2)] show ?thesis .
  next
    case (Some oi)
    obtain outp i where oi: "oi = (outp, i)" by (cases oi)
    with Cons.prems(1) fr ns Some have "it_upstream it = Some outp"
      by (auto dest: extendPathUpstream_upstream)
    with Cons.prems(2) have "u = outp" by simp
    with next_sibling_consumer ns Some oi show ?thesis by blast
  qed
qed

lemma iter_next_upstream:
  assumes n: "iter_next s it = Inr it'" and u: "it_upstream it' = Some u"
  shows "has_consumer s u"
proof (cases "it_upstream it")
  case None
  with n have "traverse_siblings s (it_stack it) (it_path it) = Inr it'"
    by (simp add: iter_next_def)
  from traverse_siblings_upstream [OF this u] show ?thesis .
next
  case (Some up)
  show ?thesis
  proof (cases "numInputs s (port_node up) \<noteq> 0")
    case False
    with Some n have "traverse_siblings s (it_stack it) (it_path it - {up}) = Inr it'"
      by (simp add: iter_next_def)
    from traverse_siblings_upstream [OF this u] show ?thesis .
  next
    case True
    show ?thesis
    proof (cases "leads_upstream s (Port (port_node up) 0)")
      case None
      with True Some n have "traverse_siblings s ((up, 0) # it_stack it) (it_path it - {up}) = Inr it'"
        by (simp add: iter_next_def del: traverse_siblings.simps)
      from traverse_siblings_upstream [OF this u] show ?thesis .
    next
      case (Some outp)
      with True \<open>it_upstream it = Some up\<close> n
      have "extendPathUpstream outp (Port (port_node up) 0) (it\<lparr>it_stack := (up, 0) # it_stack it\<rparr>) = Inr it'"
        by (simp add: iter_next_def)
      from extendPathUpstream_upstream [OF this] u have "u = outp" by simp
      with Some show ?thesis by (simp add: leads_upstream_consumer)
    qed
  qed
qed

lemma traverse_upstreams:
  "traverse fuel s it = Some (Inr es) \<Longrightarrow> \<forall>u. it_upstream it = Some u \<longrightarrow> has_consumer s u \<Longrightarrow>
   (Some u, d) \<in> set es \<Longrightarrow> has_consumer s u"
proof (induction fuel arbitrary: it es)
  case 0
  then show ?case by simp
next
  case (Suc fuel)
  show ?case
  proof (cases "at_end it")
    case True
    with Suc.prems show ?thesis by simp
  next
    case False
    with Suc.prems(1) obtain it' es' where
      n: "iter_next s it = Inr it'" and t: "traverse fuel s it' = Some (Inr es')"
      and es: "es = (it_upstream it, it_downstream it) # es'"
      by (auto split: sum.splits option.splits)
    from iter_next_upstream [OF n] have h: "\<forall>u. it_upstream it' = Some u \<longrightarrow> has_consumer s u"
      by blast
    from Suc.prems(3) es have "(it_upstream it = Some u) \<or> (Some u, d) \<in> set es'" by auto
    then show ?thesis
    proof
      assume "it_upstream it = Some u"
      with Suc.prems(2) show ?thesis by blast
    next
      assume "(Some u, d) \<in> set es'"
      from Suc.IH [OF t h this] show ?thesis .
    qed
  qed
qed

lemma set_set_insert_sorted: "set (set_insert_sorted n ns) = insert n (set ns)"
  by (auto simp: set_insert_sorted_def set_insort_key)

lemma insert_upstream_nodes_sound:
  "insert_upstream_nodes es acc = Inr used \<Longrightarrow> n \<in> set used \<Longrightarrow>
   n \<in> set acc \<or> (\<exists>u d. (Some u, d) \<in> set es \<and> port_node u = n)"
proof (induction es acc rule: insert_upstream_nodes.induct)
  case (1 usedNodes)
  then show ?case by simp
next
  case (2 uu es usedNodes)
  then show ?case by simp
next
  case (3 upstream uv es usedNodes)
  from "3.prems" have "insert_upstream_nodes es (set_insert_sorted (port_node upstream) usedNodes) = Inr used"
    by simp
  from "3.IH" [OF this "3.prems"(2)] show ?case
    by (auto simp: set_set_insert_sorted)
qed

lemma find_used_nodes_sound:
  "find_used_nodes fuel s socks acc = Some (Inr used) \<Longrightarrow> n \<in> set used \<Longrightarrow>
   n \<in> set acc \<or> (\<exists>u. has_consumer s u \<and> port_node u = n)"
proof (induction socks arbitrary: acc)
  case Nil
  then show ?case by simp
next
  case (Cons sock socks)
  show ?case
  proof (cases "in_connection s sock")
    case None
    with Cons.prems have "find_used_nodes fuel s socks acc = Some (Inr used)" by simp
    from Cons.IH [OF this Cons.prems(2)] show ?thesis .
  next
    case (Some c0)
    with Cons.prems(1) obtain es acc' where
      t: "traverseUpstream fuel s c0 = Some (Inr es)"
      and i: "insert_upstream_nodes es acc = Inr acc'"
      and f: "find_used_nodes fuel s socks acc' = Some (Inr used)"
      by (auto split: option.splits sum.splits)
    from Some have h: "\<forall>u. it_upstream (SgEdgeIterator (Some c0)) = Some u \<longrightarrow> has_consumer s u"
      by (auto simp: SgEdgeIterator_def has_consumer_def)
    from Cons.IH [OF f Cons.prems(2)] show ?thesis
    proof
      assume "n \<in> set acc'"
      from insert_upstream_nodes_sound [OF i this] show ?thesis
      proof
        assume "n \<in> set acc" then show ?thesis by simp
      next
        assume "\<exists>u d. (Some u, d) \<in> set es \<and> port_node u = n"
        then obtain u d where ud: "(Some u, d) \<in> set es" "port_node u = n" by blast
        from t have "traverse fuel s (SgEdgeIterator (Some c0)) = Some (Inr es)"
          by (simp add: traverseUpstream_def)
        from traverse_upstreams [OF this h ud(1)] ud(2) show ?thesis by blast
      qed
    next
      assume "\<exists>u. has_consumer s u \<and> port_node u = n"
      then show ?thesis by simp
    qed
  qed
qed












section \<open>The edge iterator on an acyclic graph\<close>













section \<open>The optimizer on an acyclic graph\<close>

subsection \<open>The nodes in use\<close>




subsection \<open>What a step of the loop preserves\<close>


lemma optimize_loop_invariant:
  assumes "optimize_loop ns s e = Inr (s', e')" and "I1 s" and "Q s"
    and step: "\<And>n t t' b. n \<in> set ns \<Longrightarrow> I1 t \<Longrightarrow> same_nodes s t \<Longrightarrow> Q t \<Longrightarrow>
        optimize_node n t = Inr (t', b) \<Longrightarrow> Q t'"
  shows "Q s' \<and> I1 s' \<and> same_nodes s s' \<and> e \<le> e'"
  using assms
proof (induction ns arbitrary: s e)
  case Nil
  then show ?case by (simp add: same_nodes_refl)
next
  case (Cons n ns)
  from Cons.prems(1) obtain s1 ed where
    1: "optimize_node n s = Inr (s1, ed)" and
    2: "optimize_loop ns s1 (if ed then Suc e else e) = Inr (s', e')"
    by (auto split: sum.splits)
  from optimize_node_I1 [OF Cons.prems(2) 1] have i: "I1 s1" and f: "same_nodes s s1" by simp_all
  have q: "Q s1"
    by (rule Cons.prems(4) [OF _ Cons.prems(2) same_nodes_refl Cons.prems(3) 1]) simp
  have st: "\<And>m t t' b. m \<in> set ns \<Longrightarrow> I1 t \<Longrightarrow> same_nodes s1 t \<Longrightarrow> Q t \<Longrightarrow>
        optimize_node m t = Inr (t', b) \<Longrightarrow> Q t'"
  proof -
    fix m t t' b
    assume m: "m \<in> set ns" and t: "I1 t" "same_nodes s1 t" "Q t" "optimize_node m t = Inr (t', b)"
    from m have "m \<in> set (n # ns)" by simp
    from Cons.prems(4) [OF this t(1) same_nodes_trans [OF f t(2)] t(3,4)] show "Q t'" .
  qed
  from Cons.IH [OF 2 i q st] have "Q s' \<and> I1 s' \<and> same_nodes s1 s' \<and> (if ed then Suc e else e) \<le> e'"
    by simp
  with f show ?case
    by (auto intro: same_nodes_trans split: if_splits)
qed






lemma unconnected_bypass:
  assumes s: "I1 s" and d: "in_connection s D = None" and b: "bypass n b k s = Inr s'"
  shows "in_connection s' D = None \<and> in_value s' D = in_value s D"
proof -
  from I1_D2 [OF s, of D "Port n k"] d have "D \<notin> set (out_connections s (Port n k))"
    by auto
  with d bypass_effect [OF b, of D] show ?thesis by simp
qed

lemma optimize_node_step:
  assumes "optimize_node n t = Inr (t', b)" and "Q t"
    and "\<And>k. bypass n k 0 t = Inr t' \<Longrightarrow> Q t'"
  shows "Q t'"
  using optimize_node_cases [OF assms(1)] assms(2,3) by auto




lemma optimize_loop_unconnected:
  assumes loop: "optimize_loop ns s e = Inr (s', e')" and s: "I1 s" and u: "in_connection s D = None"
  shows "in_connection s' D = None \<and> in_value s' D = in_value s D"
proof -
  let ?Q = "\<lambda>t. in_connection t D = None \<and> in_value t D = in_value s D"
  have "?Q s' \<and> I1 s' \<and> same_nodes s s' \<and> e \<le> e'"
  proof (rule optimize_loop_invariant [OF loop s, where Q = ?Q])
    show "?Q s" using u by simp
  next
    fix n t t' b
    assume t: "I1 t" "?Q t" "optimize_node n t = Inr (t', b)"
    show "?Q t'"
    proof (rule optimize_node_step [OF t(3)])
      show "?Q t" by (rule t(2))
    next
      fix k assume "bypass n k 0 t = Inr t'"
      from unconnected_bypass [OF t(1) _ this, of D] t(2) show "?Q t'" by simp
    qed
  qed
  then show ?thesis by simp
qed

subsection \<open>What the removal of the unused nodes keeps\<close>



lemma keeps_mono: "keeps R s s' \<Longrightarrow> R \<subseteq> R' \<Longrightarrow> keeps R' s s'"
  unfolding keeps_def by blast







subsection \<open>More fuel changes no result\<close>



subsection \<open>What \<open>optimize\<close> returns\<close>







section \<open>Constant nodes\<close>







section \<open>The folding of conditionals\<close>

subsection \<open>A node bypassed in the loop is removed\<close>



subsection \<open>If/else nodes\<close>






subsection \<open>Switch nodes\<close>










end
